theory Spec2Isabelle
  imports Complex_Main
begin

section \<open>Arrays, the store and errors\<close>

text \<open>
  The development embeds the resolution-matrix functions of \<^verbatim>\<open>evaler/inverse_eval.py\<close>.
  A numpy float array is held over the real numbers: rounding is not modelled, and a
  quotient is the real quotient, which agrees with numpy's wherever the divisor is not
  zero (numpy gives \<^verbatim>\<open>inf\<close> or \<^verbatim>\<open>nan\<close> there, HOL gives 0); theorems about
  quotients therefore name the divisors they need to be nonzero. Where the source itself
  tests for a non-finite value, or produces one from integer counts, the value is explicit
  in the model.

  A two-dimensional array is the list of its columns: \<^verbatim>\<open>R[i, j]\<close> is \<open>R ! j ! i\<close>,
  \<^verbatim>\<open>R[:, j]\<close> is \<open>R ! j\<close>, \<^verbatim>\<open>len(R.T)\<close> is \<open>length R\<close>. An array of shape \<open>(0, k)\<close> is
  \<open>k\<close> empty columns; an array with no column is \<open>[]\<close> and is read as having no row.

  Arrays are objects: a variable holds a reference into a store, the in-place writes of
  the source (\<^verbatim>\<open>R_std[:, d] = ...\<close>, \<^verbatim>\<open>np.fill_diagonal\<close>) update the store at that
  reference, and \<^verbatim>\<open>.copy()\<close> allocates a new cell. A function returns its value or the
  exception it raised, together with the store it leaves behind.
\<close>

datatype error = ValueError | IndexError | NameError | KeyError

type_synonym ndarray = "real list list"

type_synonym addr = nat

type_synonym heap = "ndarray list"

type_synonym 'a result = "(error + 'a) \<times> heap"

definition shape0 :: "ndarray \<Rightarrow> nat" where
  "shape0 A = (case A of [] \<Rightarrow> 0 | c # _ \<Rightarrow> length c)"

definition shape1 :: "ndarray \<Rightarrow> nat" where
  "shape1 A = length A"

text \<open>\<^verbatim>\<open>A.copy()\<close>: a new cell holding the same entries.\<close>

definition np_copy :: "heap \<Rightarrow> addr \<Rightarrow> addr \<times> heap" where
  "np_copy h a = (length h, h @ [h ! a])"

text \<open>Storing a freshly built array.\<close>

definition np_new :: "heap \<Rightarrow> ndarray \<Rightarrow> addr \<times> heap" where
  "np_new h A = (length h, h @ [A])"

text \<open>\<^verbatim>\<open>np.max\<close> of a one-dimensional array; it raises ValueError on an empty one.\<close>

fun np_max :: "real list \<Rightarrow> error + real" where
  "np_max [] = Inl ValueError"
| "np_max (x # xs) = Inr (fold max xs x)"

section \<open>standardize_columns\<close>

text \<open>
  One pass of the loop body for column \<open>d\<close> of the array at \<open>a\<close>: the two \<^verbatim>\<open>if\<close>
  statements in the source's order. \<^verbatim>\<open>R_std[d, d]\<close> raises IndexError when the array
  has no row \<open>d\<close>.
\<close>

definition standardize_body :: "string \<Rightarrow> addr \<Rightarrow> nat \<Rightarrow> heap \<Rightarrow> unit result" where
  "standardize_body arg a d h =
     (case (if arg = ''diag'' then
              (if d < length (h ! a ! d) then
                 (let diag = h ! a ! d ! d
                  in (Inr (), h[a := (h ! a)[d := map (\<lambda>x. x / diag) (h ! a ! d)]]))
               else (Inl IndexError, h))
            else (Inr (), h)) of
        (Inl e, h1) \<Rightarrow> (Inl e, h1)
      | (Inr u, h1) \<Rightarrow>
          (if arg = ''max'' then
             (case np_max (h1 ! a ! d) of
                Inl e \<Rightarrow> (Inl e, h1)
              | Inr m \<Rightarrow> (Inr (), h1[a := (h1 ! a)[d := map (\<lambda>x. x / m) (h1 ! a ! d)]]))
           else (Inr (), h1)))"

fun standardize_loop :: "string \<Rightarrow> addr \<Rightarrow> nat list \<Rightarrow> heap \<Rightarrow> unit result" where
  "standardize_loop arg a [] h = (Inr (), h)"
| "standardize_loop arg a (d # ds) h =
     (case standardize_body arg a d h of
        (Inl e, h1) \<Rightarrow> (Inl e, h1)
      | (Inr u, h1) \<Rightarrow> standardize_loop arg a ds h1)"

definition standardize_columns :: "heap \<Rightarrow> addr \<Rightarrow> string \<Rightarrow> addr result" where
  "standardize_columns h R arg =
     (if arg \<notin> set [''diag'', ''max''] then (Inl ValueError, h)
      else
        (let (R_std, h1) = np_copy h R
         in (case standardize_loop arg R_std [0 ..< length (h1 ! R_std)] h1 of
               (Inl e, h2) \<Rightarrow> (Inl e, h2)
             | (Inr u, h2) \<Rightarrow> (Inr R_std, h2))))"

text \<open>
  Two auxiliary notions for the statements about the loop: the condition under which the
  pass for column \<open>d\<close> raises nothing, and the column it writes.
\<close>

definition col_ok :: "string \<Rightarrow> nat \<Rightarrow> real list \<Rightarrow> bool" where
  "col_ok arg d c = (if arg = ''diag'' then d < length c else c \<noteq> [])"

definition std_col :: "string \<Rightarrow> nat \<Rightarrow> real list \<Rightarrow> real list" where
  "std_col arg d c =
     (if arg = ''diag'' then map (\<lambda>x. x / c ! d) c else map (\<lambda>x. x / Max (set c)) c)"

section \<open>remove_diagonal\<close>

text \<open>
  The value \<^verbatim>\<open>remove_diagonal\<close> writes on the diagonal and compares the entries with. The
  source writes the literal \<^verbatim>\<open>9999999999999999\<close>; the arrays are float64, which cannot
  hold this odd integer above \<open>2^53\<close>, so \<^verbatim>\<open>np.fill_diagonal\<close> stores and \<^verbatim>\<open>==\<close> compares
  with the nearest float64 value, \<open>10^16\<close>. The entries of the arrays are reals that stand
  for float64 values.
\<close>

definition sentinel :: real where
  "sentinel = 10000000000000000"

text \<open>
  \<^verbatim>\<open>np.fill_diagonal(A, v)\<close> writes \<open>v\<close> at \<open>A[i, i]\<close> for every \<open>i\<close> below both
  dimensions, in place.
\<close>

definition fill_diagonal :: "ndarray \<Rightarrow> real \<Rightarrow> ndarray" where
  "fill_diagonal A v = map (\<lambda>j. (A ! j)[j := v]) [0 ..< length A]"

text \<open>Splitting a flat array into consecutive rows of \<open>c\<close> entries.\<close>

fun chunks :: "nat \<Rightarrow> nat \<Rightarrow> 'a list \<Rightarrow> 'a list list" where
  "chunks 0 c xs = []"
| "chunks (Suc r) c xs = take c xs # chunks r c (drop c xs)"

text \<open>
  \<^verbatim>\<open>flat.reshape(r, c)\<close>, as the list of the \<open>r\<close> rows. The second dimension may be
  \<open>-1\<close>, which numpy infers from the size and raises ValueError when it cannot; any
  other mismatch of sizes raises ValueError too.
\<close>

definition reshape :: "'a list \<Rightarrow> nat \<Rightarrow> int \<Rightarrow> error + 'a list list" where
  "reshape flat r c =
     (if c = -1 then
        (if r = 0 \<or> length flat mod r \<noteq> 0 then Inl ValueError
         else Inr (chunks r (length flat div r) flat))
      else if c < 0 then Inl ValueError
      else if r * nat c \<noteq> length flat then Inl ValueError
      else Inr (chunks r (nat c) flat))"

text \<open>
  \<^verbatim>\<open>A_off_diagonal.T[np.where(~bool_ind)]\<close> lists the entries of the transposed array
  that differ from the sentinel, row by row, that is column by column of the array;
  the rows of the reshaped array are the columns of the returned one.
\<close>

definition remove_diagonal :: "heap \<Rightarrow> addr \<Rightarrow> addr result" where
  "remove_diagonal h A =
     (let (A_off_diagonal, h1) = np_copy h A;
          h2 = h1[A_off_diagonal := fill_diagonal (h1 ! A_off_diagonal) sentinel];
          selected = concat (map (filter (\<lambda>x. x \<noteq> sentinel)) (h2 ! A_off_diagonal))
      in (case reshape selected (shape1 (h2 ! A_off_diagonal))
                 (int (shape0 (h2 ! A_off_diagonal)) - 1) of
            Inl e \<Rightarrow> (Inl e, h2)
          | Inr rows \<Rightarrow> (let (out, h3) = np_new h2 rows in (Inr out, h3))))"

text \<open>
  The claim's wording of the result: column \<open>j\<close> without its entry \<open>j\<close>, the other
  entries in their order.
\<close>

definition drop_diag :: "ndarray \<Rightarrow> ndarray" where
  "drop_diag A = map (\<lambda>j. take j (A ! j) @ drop (Suc j) (A ! j)) [0 ..< length A]"

section \<open>get_roc\<close>

text \<open>
  The quotient of two counts (\<^verbatim>\<open>TP/(TP+FN)\<close> on numpy integers) is a float; with a zero
  divisor it is \<^verbatim>\<open>nan\<close> or \<^verbatim>\<open>inf\<close>, and nothing is raised. A float that may be
  non-finite is a \<open>real option\<close>, \<open>None\<close> standing for \<^verbatim>\<open>nan\<close> and the infinities;
  sums, differences, products and absolute values of floats are non-finite as soon as one
  operand is.
\<close>

definition true_divide :: "nat \<Rightarrow> nat \<Rightarrow> real option" where
  "true_divide a b = (if b = 0 then None else Some (real a / real b))"

definition n_T :: nat where
  "n_T = 100"

text \<open>\<^verbatim>\<open>np.linspace(start, stop, num)\<close>: \<open>num\<close> points, the last one \<open>stop\<close>.\<close>

definition linspace :: "real \<Rightarrow> real \<Rightarrow> nat \<Rightarrow> real list" where
  "linspace start stop num =
     map (\<lambda>i. start + real i * ((stop - start) / real (num - 1))) [0 ..< num]"

text \<open>The thresholds of the sweep: \<^verbatim>\<open>np.linspace(-0.01, 1.01, n_T)\<close>.\<close>

definition thresholds :: "real list" where
  "thresholds = linspace (- 0.01) 1.01 n_T"

text \<open>\<^verbatim>\<open>np.diag\<close> of a two-dimensional array: its diagonal entries.\<close>

definition np_diag :: "ndarray \<Rightarrow> real list" where
  "np_diag A = map (\<lambda>i. A ! i ! i) [0 ..< min (shape0 A) (shape1 A)]"

text \<open>\<^verbatim>\<open>np.sum\<close> of a boolean array: the number of entries that satisfy the test.\<close>

definition count_true :: "('a \<Rightarrow> bool) \<Rightarrow> 'a list \<Rightarrow> nat" where
  "count_true P xs = length (filter P xs)"

record all_stats =
  TPs :: "nat list"
  FNs :: "nat list"
  TNs :: "nat list"
  FPs :: "nat list"

text \<open>
  The array \<^verbatim>\<open>ROC\<close> of shape \<open>(2, n_T + 3)\<close>, as the list of its columns: column \<open>c\<close> is
  \<open>[ROC[0, c], ROC[1, c]]\<close>.
\<close>

type_synonym roc = "real option list list"

definition roc_zeros :: roc where
  "roc_zeros = replicate (n_T + 3) [Some 0, Some 0]"

text \<open>One pass of the threshold loop, for the pair \<open>(c, T)\<close> of \<^verbatim>\<open>enumerate\<close>.\<close>

definition roc_body :: "real list \<Rightarrow> ndarray \<Rightarrow> nat \<times> real \<Rightarrow> roc \<times> all_stats \<Rightarrow> roc \<times> all_stats" where
  "roc_body true_estimates R_max_off_diagonals cT acc =
     (let c = fst cT; T = snd cT; ROC = fst acc; stats = snd acc;
          tp = count_true (\<lambda>x. x > T) true_estimates;
          fn = length true_estimates - tp;
          tn = count_true (\<lambda>x. x \<le> T) (concat R_max_off_diagonals);
          fp = count_true (\<lambda>x. x \<ge> T) (concat R_max_off_diagonals);
          TPR = true_divide tp (tp + fn);
          FPR = true_divide fp (fp + tn);
          ROC1 = ROC[c := (ROC ! c)[0 := FPR]];
          ROC2 = ROC1[c := (ROC1 ! c)[1 := TPR]]
      in (ROC2, stats\<lparr>TPs := TPs stats @ [tp], FNs := FNs stats @ [fn],
                       TNs := TNs stats @ [tn], FPs := FPs stats @ [fp]\<rparr>))"

text \<open>
  \<^verbatim>\<open>np.trapz(y, x)\<close>: the sum of \<open>(x[i+1] - x[i]) * (y[i+1] + y[i]) / 2\<close>. On the 103
  points of the curve every entry enters the sum, so one non-finite entry makes the
  result non-finite.
\<close>

fun trapz_sum :: "real list \<Rightarrow> real list \<Rightarrow> real" where
  "trapz_sum (y0 # y1 # ys) (x0 # x1 # xs) =
     (x1 - x0) * (y1 + y0) / 2 + trapz_sum (y1 # ys) (x1 # xs)"
| "trapz_sum ys xs = 0"

definition trapz :: "real option list \<Rightarrow> real option list \<Rightarrow> real option" where
  "trapz y x =
     (if None \<in> set y \<or> None \<in> set x then None
      else Some (trapz_sum (map the y) (map the x)))"

definition get_roc :: "heap \<Rightarrow> addr \<Rightarrow> (roc \<times> real option \<times> all_stats) result" where
  "get_roc h R =
     (case standardize_columns h R ''max'' of
        (Inl e, h1) \<Rightarrow> (Inl e, h1)
      | (Inr R_max, h1) \<Rightarrow>
          (let true_estimates = np_diag (h1 ! R_max)
           in (case remove_diagonal h1 R_max of
                 (Inl e, h2) \<Rightarrow> (Inl e, h2)
               | (Inr R_max_off_diagonals, h2) \<Rightarrow>
                   (let (ROC, stats) =
                          fold (roc_body true_estimates (h2 ! R_max_off_diagonals))
                            (enumerate 0 thresholds)
                            (roc_zeros, \<lparr>TPs = [], FNs = [], TNs = [], FPs = []\<rparr>);
                        acu = map_option abs (trapz (map (\<lambda>col. col ! 1) ROC) (map (\<lambda>col. col ! 0) ROC))
                    in (Inr (ROC, acu, stats), h2)))))"

subsection \<open>Notions used to state the properties of get_roc\<close>

text \<open>
  In the claim's words: the array whose columns are those of \<open>A\<close> divided by their
  maxima, and the list of the entries \<open>A[i, j]\<close> with \<open>i \<noteq> j\<close>.
\<close>

definition col_standardized :: "ndarray \<Rightarrow> ndarray" where
  "col_standardized A = map (\<lambda>c. map (\<lambda>x. x / Max (set c)) c) A"

definition offdiag_entries :: "ndarray \<Rightarrow> real list" where
  "offdiag_entries A =
     concat (map (\<lambda>j. map (\<lambda>i. A ! j ! i) (filter (\<lambda>i. i \<noteq> j) [0 ..< length (A ! j)]))
               [0 ..< length A])"

text \<open>
  What one pass of the loop writes for a threshold \<open>T\<close>, given the diagonal and the
  off-diagonal entries; the lists of counts after a run over thresholds \<open>Ts\<close>; the whole
  curve; and the two rates as real numbers.
\<close>

definition roc_column :: "real list \<Rightarrow> real list \<Rightarrow> real \<Rightarrow> real option list" where
  "roc_column dg off T =
     [true_divide (count_true (\<lambda>x. x \<ge> T) off)
        (count_true (\<lambda>x. x \<ge> T) off + count_true (\<lambda>x. x \<le> T) off),
      true_divide (count_true (\<lambda>x. x > T) dg)
        (count_true (\<lambda>x. x > T) dg + (length dg - count_true (\<lambda>x. x > T) dg))]"

definition add_stats :: "real list \<Rightarrow> real list \<Rightarrow> real list \<Rightarrow> all_stats \<Rightarrow> all_stats" where
  "add_stats dg off Ts st =
     st\<lparr>TPs := TPs st @ map (\<lambda>T. count_true (\<lambda>x. x > T) dg) Ts,
        FNs := FNs st @ map (\<lambda>T. length dg - count_true (\<lambda>x. x > T) dg) Ts,
        TNs := TNs st @ map (\<lambda>T. count_true (\<lambda>x. x \<le> T) off) Ts,
        FPs := FPs st @ map (\<lambda>T. count_true (\<lambda>x. x \<ge> T) off) Ts\<rparr>"

definition roc_curve :: "ndarray \<Rightarrow> roc" where
  "roc_curve S =
     map (roc_column (np_diag S) (offdiag_entries S)) thresholds @
     replicate 3 [Some 0, Some 0]"

definition fpr_at :: "real list \<Rightarrow> real \<Rightarrow> real" where
  "fpr_at off T =
     real (count_true (\<lambda>x. x \<ge> T) off) /
     real (count_true (\<lambda>x. x \<ge> T) off + count_true (\<lambda>x. x \<le> T) off)"

definition tpr_at :: "real list \<Rightarrow> real \<Rightarrow> real" where
  "tpr_at dg T =
     real (count_true (\<lambda>x. x > T) dg) /
     real (count_true (\<lambda>x. x > T) dg + (length dg - count_true (\<lambda>x. x > T) dg))"

text \<open>
  The claim's description of the point recorded for threshold number \<open>c\<close>: with \<open>T\<close>
  the \<open>c\<close>-th of 100 evenly spaced values from \<open>-0.01\<close> to \<open>1.01\<close>, the diagonal entries
  of the standardized array above \<open>T\<close> are the true positives, the rest of the diagonal
  the false negatives, the off-diagonal entries at most \<open>T\<close> the true negatives and
  those at least \<open>T\<close> the false positives, and the point is
  \<open>(FP / (FP + TN), TP / (TP + FN))\<close>.
\<close>

definition roc_point :: "ndarray \<Rightarrow> nat \<Rightarrow> all_stats \<Rightarrow> roc \<Rightarrow> bool" where
  "roc_point A c stats ROC =
     (let T = - 0.01 + real c * (1.02 / 99);
          S = col_standardized A;
          tp = count_true (\<lambda>i. S ! i ! i > T) [0 ..< length S];
          fn = length S - tp;
          tn = count_true (\<lambda>x. x \<le> T) (offdiag_entries S);
          fp = count_true (\<lambda>x. x \<ge> T) (offdiag_entries S)
      in TPs stats ! c = tp \<and> FNs stats ! c = fn \<and>
         TNs stats ! c = tn \<and> FPs stats ! c = fp \<and>
         ROC ! c = [Some (real fp / real (fp + tn)), Some (real tp / real (tp + fn))])"

section \<open>get_average_cross_talk_map\<close>

text \<open>
  Python looks a global name up when the statement that uses it runs, and raises
  NameError when the module binds no such name (and it is no builtin). These are the
  names the module binds: its imports and its function definitions.
\<close>

definition module_globals :: "string list" where
  "module_globals =
     [''np'', ''Pool'', ''mne'', ''read_inverse_operator'', ''prepare_inverse_operator'',
      ''_assemble_kernel'', ''RawArray'', ''remove_overlap_in_labels'', ''blurring'',
      ''get_raw_noise'', ''settings_class'', ''plot_topographic_parcellation'',
      ''setup_labels'', ''setup'', ''_getInversionKernel'',
      ''_convert_real_resolution_matrix_to_labels'', ''standardize_columns'', ''get_noise'',
      ''get_empirical_R_large'', ''load_R_emp'', ''correct_fwd'', ''get_R'',
      ''remove_diagonal'', ''get_average_cross_talk_map'', ''get_average_point_spread'',
      ''get_spatial_dispersion'', ''get_spherical_coge'', ''get_label_center_points'',
      ''get_peak_dipole_error'', ''get_label_center'', ''get_center_of_gravity_error'',
      ''resolution_map'', ''get_r_master'', ''get_roc_statistics'', ''get_prc_statistics'',
      ''get_roc'', ''get_prc'', ''count_sources_in_labels'']"

definition lookup_global :: "string \<Rightarrow> error + string" where
  "lookup_global name = (if name \<in> set module_globals then Inr name else Inl NameError)"

text \<open>
  Modelled from the spec: \<^verbatim>\<open>standardize_rows\<close> is called by
  \<^verbatim>\<open>get_average_cross_talk_map\<close> and defined nowhere in the module. The claim speaks of
  the row-standardized resolution matrix, and the docstring of \<^verbatim>\<open>resolution_map\<close> of
  standardizing with respect to the maximal value in each row: the row counterpart of
  \<^verbatim>\<open>standardize_columns(R, 'max')\<close>, on a copy.
\<close>

definition np_row :: "ndarray \<Rightarrow> nat \<Rightarrow> real list" where
  "np_row A i = map (\<lambda>c. c ! i) A"

definition standardize_rows :: "heap \<Rightarrow> addr \<Rightarrow> addr result" where
  "standardize_rows h R =
     (let (R_std, h1) = np_copy h R
      in (Inr R_std,
          h1[R_std := map (\<lambda>c. map (\<lambda>i. c ! i / Max (set (np_row (h ! R) i))) [0 ..< length c])
                        (h ! R)]))"

text \<open>
  \<^verbatim>\<open>np.median\<close> of a one-dimensional array: the middle entry of the sorted array, or
  the mean of the two middle entries; \<^verbatim>\<open>nan\<close> for an empty array.
\<close>

definition np_median :: "real list \<Rightarrow> real option" where
  "np_median xs =
     (if xs = [] then None
      else (let s = sort xs; n = length xs
            in if odd n then Some (s ! (n div 2))
               else Some ((s ! (n div 2 - 1) + s ! (n div 2)) / 2)))"

definition get_average_cross_talk_map :: "heap \<Rightarrow> addr \<Rightarrow> real option list result" where
  "get_average_cross_talk_map h R =
     (case lookup_global ''standardize_rows'' of
        Inl e \<Rightarrow> (Inl e, h)
      | Inr f \<Rightarrow>
          (case standardize_rows h R of
             (Inl e, h1) \<Rightarrow> (Inl e, h1)
           | (Inr R1, h1) \<Rightarrow>
               (Inr (map (\<lambda>i. np_median (np_row (h1 ! R1) i)) [0 ..< shape0 (h1 ! R1)]), h1)))"

section \<open>get_label_center and get_center_of_gravity_error\<close>

text \<open>
  A source space holds the positions \<^verbatim>\<open>rr\<close> of its points, an array of shape
  \<open>(n, 3)\<close>: a list of triples. \<^verbatim>\<open>src\<close> is the pair of the two hemispheres' source
  spaces. A label has a hemisphere, \<^verbatim>\<open>'lh'\<close> or \<^verbatim>\<open>'rh'\<close>, and the indices of its
  vertices.
\<close>

type_synonym vec3 = "real \<times> real \<times> real"

datatype hemisphere = Lh | Rh

record label =
  name :: string
  hemi :: hemisphere
  vertices :: "nat list"

record source_space =
  rr :: "vec3 list"

definition vec_add :: "vec3 \<Rightarrow> vec3 \<Rightarrow> vec3" where
  "vec_add u v = (case u of (a, b, c) \<Rightarrow> (case v of (x, y, z) \<Rightarrow> (a + x, b + y, c + z)))"

definition vec_sub :: "vec3 \<Rightarrow> vec3 \<Rightarrow> vec3" where
  "vec_sub u v = (case u of (a, b, c) \<Rightarrow> (case v of (x, y, z) \<Rightarrow> (a - x, b - y, c - z)))"

definition vec_scale :: "real \<Rightarrow> vec3 \<Rightarrow> vec3" where
  "vec_scale k v = (case v of (x, y, z) \<Rightarrow> (k * x, k * y, k * z))"

definition vec_div :: "vec3 \<Rightarrow> real \<Rightarrow> vec3" where
  "vec_div v k = (case v of (x, y, z) \<Rightarrow> (x / k, y / k, z / k))"

definition vec_sum :: "vec3 list \<Rightarrow> vec3" where
  "vec_sum vs = foldr vec_add vs (0, 0, 0)"

text \<open>\<^verbatim>\<open>np.linalg.norm\<close> of a vector: the Euclidean norm.\<close>

definition vec_norm :: "vec3 \<Rightarrow> real" where
  "vec_norm v = (case v of (x, y, z) \<Rightarrow> sqrt (x * x + y * y + z * z))"

text \<open>
  \<^verbatim>\<open>np.mean(rr[verts, :], axis=0)\<close>: indexing raises IndexError on a vertex the source
  space does not have; the mean is the sum over the count.
\<close>

definition take_points :: "'a list \<Rightarrow> nat list \<Rightarrow> error + 'a list" where
  "take_points ps verts =
     (if \<forall>v \<in> set verts. v < length ps then Inr (map (\<lambda>v. ps ! v) verts) else Inl IndexError)"

definition np_mean_axis0 :: "vec3 list \<Rightarrow> vec3" where
  "np_mean_axis0 ps = vec_div (vec_sum ps) (real (length ps))"

fun get_label_center :: "label list \<Rightarrow> source_space \<times> source_space \<Rightarrow> error + vec3 list" where
  "get_label_center [] src = Inr []"
| "get_label_center (l # ls) src =
     (case (case hemi l of
              Lh \<Rightarrow> take_points (rr (fst src)) (vertices l)
            | Rh \<Rightarrow> take_points (rr (snd src)) (vertices l)) of
        Inl e \<Rightarrow> Inl e
      | Inr ps \<Rightarrow>
          (case get_label_center ls src of
             Inl e \<Rightarrow> Inl e
           | Inr centers \<Rightarrow> Inr (np_mean_axis0 ps # centers)))"

text \<open>
  \<^verbatim>\<open>np.dot(col, label_center)\<close>: the sum of the rows of \<^verbatim>\<open>label_center\<close> weighted by
  the entries of \<^verbatim>\<open>col\<close>; ValueError when the lengths differ.
\<close>

definition np_dot :: "real list \<Rightarrow> vec3 list \<Rightarrow> error + vec3" where
  "np_dot col M =
     (if length col \<noteq> length M then Inl ValueError
      else Inr (vec_sum (map2 vec_scale col M)))"

text \<open>
  \<^verbatim>\<open>np.argmin\<close>: the first index of the least entry; ValueError on an empty array.
\<close>

fun argmin_from :: "nat \<Rightarrow> real \<Rightarrow> nat \<Rightarrow> real list \<Rightarrow> nat" where
  "argmin_from best v j [] = best"
| "argmin_from best v j (x # xs) =
     (if x < v then argmin_from j x (Suc j) xs else argmin_from best v (Suc j) xs)"

definition np_argmin :: "real list \<Rightarrow> error + nat" where
  "np_argmin xs = (case xs of [] \<Rightarrow> Inl ValueError | x # ys \<Rightarrow> Inr (argmin_from 0 x 1 ys))"

text \<open>
  One pass of the loop over the columns of \<open>R\<close>, for the pair \<open>(c, col)\<close>: the weighted
  center of gravity, its distance to the center of label \<open>c\<close> (\<^verbatim>\<open>label_center[c]\<close>
  raises IndexError past the last label), and the index of the nearest label center.
\<close>

definition coge_body ::
  "vec3 list \<Rightarrow> nat \<Rightarrow> nat \<times> real list \<Rightarrow> error + real \<times> vec3 \<times> nat" where
  "coge_body label_center n_labels ccol =
     (let c = fst ccol; col = snd ccol
      in (case np_dot col label_center of
            Inl e \<Rightarrow> Inl e
          | Inr d \<Rightarrow>
              (let center_of_gravity = vec_div d (sum_list col)
               in if \<not> c < length label_center then Inl IndexError
                  else
                    (let error = vec_norm (vec_sub (label_center ! c) center_of_gravity)
                     in if length label_center \<noteq> n_labels then Inl ValueError
                        else
                          (case np_argmin
                                  (map (\<lambda>p. vec_norm (vec_sub center_of_gravity p)) label_center) of
                             Inl e \<Rightarrow> Inl e
                           | Inr k \<Rightarrow> Inr (error, center_of_gravity, k))))))"

fun coge_loop ::
  "vec3 list \<Rightarrow> nat \<Rightarrow> (nat \<times> real list) list \<Rightarrow> real list \<times> vec3 list \<times> nat list \<Rightarrow>
   error + real list \<times> vec3 list \<times> nat list" where
  "coge_loop label_center n_labels [] acc = Inr acc"
| "coge_loop label_center n_labels (ccol # rest) acc =
     (case coge_body label_center n_labels ccol of
        Inl e \<Rightarrow> Inl e
      | Inr r \<Rightarrow>
          (case acc of (coge, center_of_gravity_list, cog_closest_source) \<Rightarrow>
             coge_loop label_center n_labels rest
               (coge @ [fst r], center_of_gravity_list @ [fst (snd r)],
                cog_closest_source @ [snd (snd r)])))"

definition get_center_of_gravity_error ::
  "ndarray \<Rightarrow> source_space \<times> source_space \<Rightarrow> label list \<Rightarrow>
   error + real list \<times> vec3 list \<times> nat list" where
  "get_center_of_gravity_error R src labels =
     (case get_label_center labels src of
        Inl e \<Rightarrow> Inl e
      | Inr label_center \<Rightarrow>
          (case coge_loop label_center (length labels) (enumerate 0 R) ([], [], []) of
             Inl e \<Rightarrow> Inl e
           | Inr acc \<Rightarrow>
               (case acc of (coge, center_of_gravity_list, cog_closest_source) \<Rightarrow>
                  Inr (map (\<lambda>e. 100 * e) coge, center_of_gravity_list, cog_closest_source))))"

subsection \<open>Notions used to state the properties of the center of gravity\<close>

text \<open>
  In the claim's words: the source space of a label's hemisphere, the center of gravity
  of a label's vertex positions, and the weighted center of gravity of a column.
\<close>

definition hemi_space :: "source_space \<times> source_space \<Rightarrow> label \<Rightarrow> source_space" where
  "hemi_space src l = (case hemi l of Lh \<Rightarrow> fst src | Rh \<Rightarrow> snd src)"

definition label_centroid :: "source_space \<times> source_space \<Rightarrow> label \<Rightarrow> vec3" where
  "label_centroid src l = np_mean_axis0 (map (\<lambda>v. rr (hemi_space src l) ! v) (vertices l))"

definition weighted_center :: "real list \<Rightarrow> vec3 list \<Rightarrow> vec3" where
  "weighted_center col centers = vec_div (vec_sum (map2 vec_scale col centers)) (sum_list col)"

section \<open>Floats that may be non-finite\<close>

text \<open>
  \<^verbatim>\<open>get_R\<close> tests its scaling factor against \<^verbatim>\<open>np.inf\<close> and tests its estimates for
  \<^verbatim>\<open>nan\<close>, so there the floats carry their non-finite values. The finite ones are real
  numbers (rounding is not modelled); a zero divisor is read as \<open>+0\<close>, which it is
  wherever \<^verbatim>\<open>get_R\<close> divides: by a mean of norms or of absolute values.
\<close>

datatype xfloat = Fin real | PInf | NInf | NaN

fun xadd :: "xfloat \<Rightarrow> xfloat \<Rightarrow> xfloat" where
  "xadd (Fin a) (Fin b) = Fin (a + b)"
| "xadd NaN y = NaN"
| "xadd x NaN = NaN"
| "xadd PInf NInf = NaN"
| "xadd NInf PInf = NaN"
| "xadd PInf y = PInf"
| "xadd x PInf = PInf"
| "xadd NInf y = NInf"
| "xadd x NInf = NInf"

fun xmul :: "xfloat \<Rightarrow> xfloat \<Rightarrow> xfloat" where
  "xmul (Fin a) (Fin b) = Fin (a * b)"
| "xmul NaN y = NaN"
| "xmul x NaN = NaN"
| "xmul PInf (Fin b) = (if b > 0 then PInf else if b < 0 then NInf else NaN)"
| "xmul NInf (Fin b) = (if b > 0 then NInf else if b < 0 then PInf else NaN)"
| "xmul (Fin a) PInf = (if a > 0 then PInf else if a < 0 then NInf else NaN)"
| "xmul (Fin a) NInf = (if a > 0 then NInf else if a < 0 then PInf else NaN)"
| "xmul PInf PInf = PInf"
| "xmul NInf NInf = PInf"
| "xmul PInf NInf = NInf"
| "xmul NInf PInf = NInf"

fun xdiv :: "xfloat \<Rightarrow> xfloat \<Rightarrow> xfloat" where
  "xdiv (Fin a) (Fin b) =
     (if b \<noteq> 0 then Fin (a / b) else if a > 0 then PInf else if a < 0 then NInf else NaN)"
| "xdiv NaN y = NaN"
| "xdiv x NaN = NaN"
| "xdiv (Fin a) PInf = Fin 0"
| "xdiv (Fin a) NInf = Fin 0"
| "xdiv PInf (Fin b) = (if b \<ge> 0 then PInf else NInf)"
| "xdiv NInf (Fin b) = (if b \<ge> 0 then NInf else PInf)"
| "xdiv PInf y = NaN"
| "xdiv NInf y = NaN"

fun xabs :: "xfloat \<Rightarrow> xfloat" where
  "xabs (Fin a) = Fin \<bar>a\<bar>"
| "xabs PInf = PInf"
| "xabs NInf = PInf"
| "xabs NaN = NaN"

text \<open>\<^verbatim>\<open>np.mean\<close>: the sum over the count, \<^verbatim>\<open>nan\<close> for an empty array.\<close>

definition np_mean :: "xfloat list \<Rightarrow> xfloat" where
  "np_mean xs = xdiv (foldl xadd (Fin 0) xs) (Fin (real (length xs)))"

type_synonym farray = "xfloat list list"

section \<open>get_R\<close>

text \<open>Sequencing of statements that may raise, and a loop that builds a list.\<close>

definition ebind :: "error + 'a \<Rightarrow> ('a \<Rightarrow> error + 'b) \<Rightarrow> error + 'b" where
  "ebind m f = (case m of Inl e \<Rightarrow> Inl e | Inr x \<Rightarrow> f x)"

fun emap :: "('a \<Rightarrow> error + 'b) \<Rightarrow> 'a list \<Rightarrow> error + 'b list" where
  "emap f [] = Inr []"
| "emap f (x # xs) = ebind (f x) (\<lambda>y. ebind (emap f xs) (\<lambda>ys. Inr (y # ys)))"

text \<open>
  Arrays over channels and time (the averaged epochs, the noise, the signal, the sensor
  data, the evoked data) are held by rows, one per channel; the gain matrix and the
  resolution matrices by columns, as before.
\<close>

text \<open>
  What \<^verbatim>\<open>get_R\<close> reads through MNE: the forward solution after \<^verbatim>\<open>correct_fwd\<close> (its gain
  matrix, by columns, one per source, and the vertex numbers in use in each hemisphere),
  and the averaged epochs (channel names, bad channels, the data with one row per
  channel, and the channel indices \<^verbatim>\<open>mne.pick_types\<close> gives for magnetometers,
  gradiometers and EEG).
\<close>

record forward =
  sol_data :: ndarray
  vertno_lh :: "nat list"
  vertno_rh :: "nat list"

record evoked_file =
  ch_names :: "string list"
  bads :: "string list"
  ave_data :: "real list list"
  picks_mag :: "nat list"
  picks_grad :: "nat list"
  picks_eeg :: "nat list"

text \<open>The dictionary \<^verbatim>\<open>label_verts\<close>: for each label name, the indices of its sources.\<close>

definition label_inds :: "forward \<Rightarrow> label \<Rightarrow> nat list" where
  "label_inds fwd l =
     (let vertno = (case hemi l of Lh \<Rightarrow> vertno_lh fwd | Rh \<Rightarrow> vertno_rh fwd);
          vert_offset = (case hemi l of Lh \<Rightarrow> 0 | Rh \<Rightarrow> length (vertno_lh fwd));
          verts_in_src_space = filter (\<lambda>v. v \<in> set vertno) (vertices l)
      in map (\<lambda>i. i + vert_offset)
           (filter (\<lambda>i. vertno ! i \<in> set verts_in_src_space) [0 ..< length vertno]))"

definition make_label_verts :: "forward \<Rightarrow> label list \<Rightarrow> (string \<rightharpoonup> nat list)" where
  "make_label_verts fwd labels = fold (\<lambda>l m. m(name l \<mapsto> label_inds fwd l)) labels Map.empty"

definition dict_get :: "('k \<rightharpoonup> 'v) \<Rightarrow> 'k \<Rightarrow> error + 'v" where
  "dict_get m k = (case m k of None \<Rightarrow> Inl KeyError | Some v \<Rightarrow> Inr v)"

definition goodies_of :: "evoked_file \<Rightarrow> nat list" where
  "goodies_of ev = filter (\<lambda>c. ch_names ev ! c \<notin> set (bads ev)) [0 ..< length (ch_names ev)]"

text \<open>
  \<^verbatim>\<open>x[goodies, :]\<close>: \<^verbatim>\<open>goodies\<close> is built with \<^verbatim>\<open>np.array\<close> from a Python list, so with
  no good channel it is an empty float array and indexing with it raises IndexError.
\<close>

definition index_goodies :: "'a list \<Rightarrow> nat list \<Rightarrow> error + 'a list" where
  "index_goodies rows goodies = (if goodies = [] then Inl IndexError else take_points rows goodies)"

definition l2norm :: "real list \<Rightarrow> real" where
  "l2norm row = sqrt (sum_list (map (\<lambda>x. x * x) row))"

text \<open>\<^verbatim>\<open>np.mean(np.linalg.norm(noise[inds, :], axis=1))\<close>\<close>

definition noise_power :: "real list list \<Rightarrow> nat list \<Rightarrow> error + xfloat" where
  "noise_power noise inds =
     ebind (take_points noise inds) (\<lambda>rows. Inr (np_mean (map (\<lambda>row. Fin (l2norm row)) rows)))"

text \<open>
  The signal power of one activation label in one modality:
  \<^verbatim>\<open>G = data[:, inds] * 10**-8\<close>, \<^verbatim>\<open>signal = np.sum(G, axis=1)\<close>,
  \<^verbatim>\<open>np.mean(np.abs(signal[mod_ind[key]]) * np.sqrt(waveform.shape[1]))\<close>.
\<close>

definition signal_power ::
  "forward \<Rightarrow> (string \<rightharpoonup> nat list) \<Rightarrow> nat \<Rightarrow> nat list \<Rightarrow> label \<Rightarrow> error + xfloat" where
  "signal_power fwd label_verts n_times mod_inds l =
     ebind (dict_get label_verts (name l)) (\<lambda>inds.
     ebind (take_points (sol_data fwd) inds) (\<lambda>G.
       (let signal = map (\<lambda>ch. sum_list (map (\<lambda>col. col ! ch * (1 / 10 ^ 8)) G))
                       [0 ..< shape0 (sol_data fwd)]
        in ebind (take_points signal mod_inds) (\<lambda>picked.
             Inr (np_mean (map (\<lambda>x. Fin (\<bar>x\<bar> * sqrt (real n_times))) picked))))))"

definition sign_pow ::
  "forward \<Rightarrow> (string \<rightharpoonup> nat list) \<Rightarrow> nat \<Rightarrow> label list \<Rightarrow> nat list \<Rightarrow> error + xfloat" where
  "sign_pow fwd label_verts n_times activation_labels mod_inds =
     ebind (emap (signal_power fwd label_verts n_times mod_inds) activation_labels)
       (\<lambda>signal_powers. Inr (np_mean signal_powers))"

text \<open>
  \<^verbatim>\<open>ave_scale = SNR / np.mean(snrs)\<close>, with \<^verbatim>\<open>snrs\<close> the three ratios of signal power to
  noise power, in the order of the dictionary's keys: mag, grad, eeg.
\<close>

definition ave_scale ::
  "forward \<Rightarrow> (string \<rightharpoonup> nat list) \<Rightarrow> nat \<Rightarrow> label list \<Rightarrow> nat list list \<Rightarrow> xfloat list \<Rightarrow>
   xfloat \<Rightarrow> error + xfloat" where
  "ave_scale fwd label_verts n_times activation_labels mod_ind noise_powers SNR =
     ebind (emap (sign_pow fwd label_verts n_times activation_labels) mod_ind) (\<lambda>sign_pows.
       (let snrs = map2 xdiv sign_pows noise_powers
        in Inr (xdiv SNR (np_mean snrs))))"

text \<open>
  The forward-projected signal of one label on the good channels:
  \<^verbatim>\<open>np.dot(data[:, inds], np.repeat(waveform, len(inds), axis=0) * 10**-8)[goodies, :]\<close>,
  one row per channel.
\<close>

definition patch_signal ::
  "forward \<Rightarrow> (string \<rightharpoonup> nat list) \<Rightarrow> real list \<Rightarrow> nat list \<Rightarrow> label \<Rightarrow> error + real list list" where
  "patch_signal fwd label_verts waveform goodies l =
     ebind (dict_get label_verts (name l)) (\<lambda>inds.
     ebind (take_points (sol_data fwd) inds) (\<lambda>G.
       (let signal = map (\<lambda>ch. map (\<lambda>w. sum_list (map (\<lambda>col. col ! ch * (w * (1 / 10 ^ 8))) G)) waveform)
                       [0 ..< shape0 (sol_data fwd)]
        in index_goodies signal goodies)))"

text \<open>
  \<^verbatim>\<open>scaling * signal + noise\<close> on arrays with one row per channel. The noise holds the
  first samples of the averaged epochs, at most as many as the waveform has; numpy
  stretches a single sample over the waveform and raises ValueError on any other
  difference of lengths.
\<close>

definition scaled_plus_noise :: "xfloat \<Rightarrow> real list \<Rightarrow> real list \<Rightarrow> error + xfloat list" where
  "scaled_plus_noise scaling srow nrow =
     (if length nrow = length srow then
        Inr (map2 (\<lambda>s n. xadd (xmul scaling (Fin s)) (Fin n)) srow nrow)
      else if length nrow = 1 then
        Inr (map (\<lambda>s. xadd (xmul scaling (Fin s)) (Fin (nrow ! 0))) srow)
      else if length srow = 1 \<and> nrow = [] then Inr []
      else Inl ValueError)"

text \<open>
  The sensor data of one activation and the regularization \<^verbatim>\<open>lambda2\<close> after it
  (\<open>None\<close> while the variable is unbound): the branch on \<^verbatim>\<open>scaling == np.inf\<close>.
\<close>

definition sensor_data ::
  "xfloat \<Rightarrow> real list list \<Rightarrow> real list list \<Rightarrow> real option \<Rightarrow> error + farray \<times> real option" where
  "sensor_data scaling signal noise lambda2 =
     (if scaling = PInf then Inr (map (map Fin) signal, Some (1 / 9))
      else if length noise \<noteq> length signal then Inl ValueError
      else ebind (emap (\<lambda>sn. scaled_plus_noise scaling (fst sn) (snd sn)) (zip signal noise))
             (\<lambda>sens. Inr (sens, lambda2)))"

text \<open>
  The evoked object handed to the estimator: a row of \<^verbatim>\<open>nan\<close> for every channel, the
  rows of the good channels overwritten with the sensor data.
\<close>

definition evoked_mod :: "nat \<Rightarrow> nat list \<Rightarrow> farray \<Rightarrow> farray" where
  "evoked_mod n_channels goodies sens =
     fold (\<lambda>gr M. M[fst gr := snd gr]) (zip goodies sens)
       (replicate n_channels (replicate (case sens of [] \<Rightarrow> 0 | r # rs \<Rightarrow> length r) NaN))"

text \<open>
  The estimators are not code of the module: \<^verbatim>\<open>inv_function\<close> is the caller's,
  \<^verbatim>\<open>mne.inverse_sparse.mixed_norm\<close>, \<^verbatim>\<open>make_inverse_operator\<close> and
  \<^verbatim>\<open>prepare_inverse_operator\<close> are MNE's. They are parameters of the model, and every
  call \<^verbatim>\<open>get_R\<close> makes to one of them is recorded, with its arguments, in a trace.
  \<^verbatim>\<open>inv_function\<close> returns the source estimate with one row per source;
  \<^verbatim>\<open>mixed_norm\<close> returns the active vertices of the two hemispheres and one row of
  data per active dipole. \<^verbatim>\<open>closed_form\<close> stands for the kernel assembly and the
  products after \<^verbatim>\<open>prepare_inverse_operator\<close>, which no property below depends on.
\<close>

datatype inverse_operator = Minimum_norm_operator

datatype prepared = Prepared "inverse_operator option" real string

datatype call =
    Make_inverse_operator
  | Mixed_norm farray
  | Inv_function farray xfloat string "inverse_operator option"
  | Prepare_inverse_operator "inverse_operator option" real string

record estimators =
  inv_function :: "farray \<Rightarrow> xfloat \<Rightarrow> string \<Rightarrow> inverse_operator option \<Rightarrow> farray"
  mixed_norm :: "farray \<Rightarrow> nat list \<times> nat list \<times> farray"
  closed_form :: "prepared \<Rightarrow> farray \<times> farray"

datatype get_R_output =
    Empirical farray farray
  | Analytical farray farray farray
  | Empirical_only farray

text \<open>
  Writing a vector into a column of \<open>n\<close> entries, or into the entries \<open>idx\<close> of a column:
  numpy stretches a single value and raises ValueError on any other difference of
  lengths.
\<close>

definition assign_column :: "nat \<Rightarrow> xfloat list \<Rightarrow> error + xfloat list" where
  "assign_column n v =
     (if length v = n then Inr v
      else if length v = 1 then Inr (replicate n (v ! 0))
      else Inl ValueError)"

definition assign_at :: "xfloat list \<Rightarrow> nat list \<Rightarrow> xfloat list \<Rightarrow> error + xfloat list" where
  "assign_at column idx v =
     ebind (assign_column (length idx) v) (\<lambda>w.
       if \<forall>i \<in> set idx. i < length column
       then Inr (fold (\<lambda>iw col. col[fst iw := snd iw]) (zip idx w) column)
       else Inl IndexError)"

text \<open>
  The columns of \<^verbatim>\<open>R_emp\<close> and \<^verbatim>\<open>R_label_vert\<close> for one activation, from the estimate
  of \<^verbatim>\<open>inv_function\<close>. A \<^verbatim>\<open>nan\<close> in the estimate reaches the undefined name
  \<^verbatim>\<open>break_point\<close>, which raises NameError before the \<^verbatim>\<open>raise\<close> that follows it.
\<close>

definition inv_columns ::
  "(string \<rightharpoonup> nat list) \<Rightarrow> label list \<Rightarrow> nat \<Rightarrow> farray \<Rightarrow> error + xfloat list \<times> xfloat list" where
  "inv_columns label_verts labels n_vertices source =
     (if NaN \<in> set (concat source) then Inl NameError
      else
        ebind (emap (\<lambda>label_r.
                 ebind (dict_get label_verts (name label_r)) (\<lambda>inds_r.
                 ebind (take_points source inds_r) (\<lambda>rows.
                   Inr (np_mean (map xabs (concat rows)))))) labels) (\<lambda>emp_column.
        ebind (assign_column n_vertices (map (\<lambda>row. np_mean (map xabs row)) source)) (\<lambda>vl_column.
          Inr (emp_column, vl_column))))"

text \<open>The same from the sparse estimate of \<^verbatim>\<open>mixed_norm\<close>.\<close>

definition mixed_columns ::
  "forward \<Rightarrow> (string \<rightharpoonup> nat list) \<Rightarrow> label list \<Rightarrow> nat \<Rightarrow> nat list \<times> nat list \<times> farray \<Rightarrow>
   error + xfloat list \<times> xfloat list" where
  "mixed_columns fwd label_verts labels n_vertices estimate =
     (let lh_verts = fst estimate; rh_verts = fst (snd estimate); data = snd (snd estimate);
          src_inds =
            filter (\<lambda>i. vertno_lh fwd ! i \<in> set lh_verts) [0 ..< length (vertno_lh fwd)] @
            map (\<lambda>i. i + length (vertno_lh fwd))
              (filter (\<lambda>i. vertno_rh fwd ! i \<in> set rh_verts) [0 ..< length (vertno_rh fwd)])
      in ebind (emap (\<lambda>label_r.
                  ebind (dict_get label_verts (name label_r)) (\<lambda>inds_r.
                    (let dipoles_in_label =
                           filter (\<lambda>k. src_inds ! k \<in> set inds_r) [0 ..< length src_inds]
                     in if dipoles_in_label \<noteq> [] then
                          ebind (take_points data dipoles_in_label) (\<lambda>rows.
                            Inr (np_mean (map xabs (concat rows))))
                        else Inr (Fin 0)))) labels) (\<lambda>emp_column.
         ebind (assign_at (replicate n_vertices (Fin 0)) src_inds
                  (map (\<lambda>row. np_mean (map xabs row)) data)) (\<lambda>vl_column.
           if foldl xadd (Fin 0) emp_column = Fin 0 then Inl NameError
           else Inr (emp_column, vl_column))))"

text \<open>What the loop over the activation labels shares between its passes.\<close>

record get_R_ctx =
  c_fwd :: forward
  c_label_verts :: "string \<rightharpoonup> nat list"
  c_labels :: "label list"
  c_est :: estimators
  c_invmethod :: string
  c_SNR :: xfloat
  c_inverse_operator :: "inverse_operator option"
  c_scaling :: xfloat
  c_waveform :: "real list"
  c_goodies :: "nat list"
  c_noise :: "real list list"
  c_n_channels :: nat

text \<open>
  One pass of the loop for an activation label: the columns it writes, the value of
  \<^verbatim>\<open>lambda2\<close> after it, and the estimator call it makes.
\<close>

definition get_R_body ::
  "get_R_ctx \<Rightarrow> label \<Rightarrow> real option \<Rightarrow>
   (error + (xfloat list \<times> xfloat list) \<times> real option) \<times> call list" where
  "get_R_body ctx l lambda2 =
     (case ebind (patch_signal (c_fwd ctx) (c_label_verts ctx) (c_waveform ctx) (c_goodies ctx) l)
             (\<lambda>signal. sensor_data (c_scaling ctx) signal (c_noise ctx) lambda2) of
        Inl e \<Rightarrow> (Inl e, [])
      | Inr sl \<Rightarrow>
          (let sens = fst sl; lambda2' = snd sl;
               evoked = evoked_mod (c_n_channels ctx) (c_goodies ctx) sens;
               n_vertices = length (vertno_lh (c_fwd ctx)) + length (vertno_rh (c_fwd ctx))
           in if c_invmethod ctx = ''mixed_norm'' then
                (ebind (mixed_columns (c_fwd ctx) (c_label_verts ctx) (c_labels ctx) n_vertices
                          (mixed_norm (c_est ctx) evoked))
                   (\<lambda>cols. Inr (cols, lambda2')),
                 [Mixed_norm evoked])
              else
                (ebind (inv_columns (c_label_verts ctx) (c_labels ctx) n_vertices
                          (inv_function (c_est ctx) evoked (c_SNR ctx) (c_invmethod ctx)
                             (c_inverse_operator ctx)))
                   (\<lambda>cols. Inr (cols, lambda2')),
                 [Inv_function evoked (c_SNR ctx) (c_invmethod ctx) (c_inverse_operator ctx)])))"

fun get_R_loop ::
  "get_R_ctx \<Rightarrow> label list \<Rightarrow> farray \<times> farray \<times> real option \<Rightarrow>
   (error + farray \<times> farray \<times> real option) \<times> call list" where
  "get_R_loop ctx [] acc = (Inr acc, [])"
| "get_R_loop ctx (l # ls) acc =
     (case get_R_body ctx l (snd (snd acc)) of
        (Inl e, calls) \<Rightarrow> (Inl e, calls)
      | (Inr r, calls) \<Rightarrow>
          (case get_R_loop ctx ls
                  (fst acc @ [fst (fst r)], fst (snd acc) @ [snd (fst r)], snd r) of
             (res, calls') \<Rightarrow> (res, calls @ calls')))"

text \<open>
  \<^verbatim>\<open>get_R\<close>. The arguments are those of the tuple \<^verbatim>\<open>inp\<close> that the model uses, with
  the forward solution and the averaged epochs in place of their file names, and the
  estimators in place of \<^verbatim>\<open>inv_function\<close>.
\<close>

definition get_R ::
  "forward \<Rightarrow> evoked_file \<Rightarrow> estimators \<Rightarrow> real list \<Rightarrow> label list \<Rightarrow> string \<Rightarrow> xfloat \<Rightarrow>
   label list option \<Rightarrow> bool \<Rightarrow> (error + get_R_output) \<times> call list" where
  "get_R fwd epochs_ave est waveform labels invmethod SNR0 activation_labels0 compute_analytical =
     (let activation_labels = (case activation_labels0 of None \<Rightarrow> labels | Some a \<Rightarrow> a);
          SNR = (if compute_analytical then PInf else SNR0);
          label_verts = make_label_verts fwd labels;
          goodies = goodies_of epochs_ave;
          noise0 = map (take (length waveform)) (ave_data epochs_ave);
          mod_ind = [picks_mag epochs_ave, picks_grad epochs_ave, picks_eeg epochs_ave]
      in (case ebind (emap (noise_power noise0) mod_ind) (\<lambda>noise_powers.
                ebind (index_goodies noise0 goodies) (\<lambda>noise. Inr (noise_powers, noise))) of
            Inl e \<Rightarrow> (Inl e, [])
          | Inr pn \<Rightarrow>
              (let inverse_operator =
                     (if invmethod \<in> set [''MNE'', ''dSPM'', ''eLORETA'', ''sLORETA'']
                      then Some Minimum_norm_operator else None);
                   calls0 = (if invmethod \<in> set [''MNE'', ''dSPM'', ''eLORETA'', ''sLORETA'']
                             then [Make_inverse_operator] else [])
               in (case ave_scale fwd label_verts (length waveform) activation_labels mod_ind
                         (fst pn) SNR of
                     Inl e \<Rightarrow> (Inl e, calls0)
                   | Inr scaling \<Rightarrow>
                       (case get_R_loop
                               \<lparr>c_fwd = fwd, c_label_verts = label_verts, c_labels = labels,
                                c_est = est, c_invmethod = invmethod, c_SNR = SNR,
                                c_inverse_operator = inverse_operator, c_scaling = scaling,
                                c_waveform = waveform, c_goodies = goodies, c_noise = snd pn,
                                c_n_channels = length (ch_names epochs_ave)\<rparr>
                               activation_labels ([], [], None) of
                          (Inl e, calls) \<Rightarrow> (Inl e, calls0 @ calls)
                        | (Inr acc, calls) \<Rightarrow>
                            (let R_emp = fst acc; R_label_vert = fst (snd acc);
                                 lambda2 = snd (snd acc)
                             in if compute_analytical then
                                  (case lambda2 of
                                     None \<Rightarrow> (Inl NameError, calls0 @ calls)
                                   | Some l2 \<Rightarrow>
                                       (if invmethod = ''MNE'' \<or> invmethod = ''dSPM'' \<or>
                                           invmethod = ''sLORETA''
                                        then
                                          (let RR = closed_form est
                                                      (Prepared inverse_operator l2 invmethod)
                                           in (Inr (Analytical R_emp (fst RR) (snd RR)),
                                               calls0 @ calls @
                                               [Prepare_inverse_operator inverse_operator l2 invmethod]))
                                        else
                                          (Inr (Empirical_only R_emp),
                                           calls0 @ calls @
                                           [Prepare_inverse_operator inverse_operator l2 invmethod])))
                                else
                                  (Inr (Empirical (map (map xabs) R_emp) R_label_vert),
                                   calls0 @ calls)))))))"

subsection \<open>Notions used to state the properties of get_R, and a small example\<close>

definition estimator_call :: "get_R_ctx \<Rightarrow> farray \<Rightarrow> call" where
  "estimator_call ctx evoked =
     (if c_invmethod ctx = ''mixed_norm'' then Mixed_norm evoked
      else Inv_function evoked (c_SNR ctx) (c_invmethod ctx) (c_inverse_operator ctx))"

definition scaled_signal_plus_noise :: "xfloat \<Rightarrow> real list list \<Rightarrow> real list list \<Rightarrow> error + farray" where
  "scaled_signal_plus_noise scaling signal noise =
     (if length noise \<noteq> length signal then Inl ValueError
      else emap (\<lambda>sn. scaled_plus_noise scaling (fst sn) (snd sn)) (zip signal noise))"

definition sens_for :: "get_R_ctx \<Rightarrow> label \<Rightarrow> farray \<Rightarrow> bool" where
  "sens_for ctx l sens =
     (\<exists>signal.
        patch_signal (c_fwd ctx) (c_label_verts ctx) (c_waveform ctx) (c_goodies ctx) l = Inr signal \<and>
        (if c_scaling ctx = PInf then sens = map (map Fin) signal
         else scaled_signal_plus_noise (c_scaling ctx) signal (c_noise ctx) = Inr sens))"

definition run_ctx ::
  "forward \<Rightarrow> evoked_file \<Rightarrow> estimators \<Rightarrow> real list \<Rightarrow> label list \<Rightarrow> string \<Rightarrow> xfloat \<Rightarrow> bool \<Rightarrow>
   real list list \<Rightarrow> xfloat \<Rightarrow> get_R_ctx" where
  "run_ctx fwd epochs_ave est waveform labels invmethod SNR0 compute_analytical noise scaling =
     \<lparr>c_fwd = fwd, c_label_verts = make_label_verts fwd labels, c_labels = labels,
      c_est = est, c_invmethod = invmethod,
      c_SNR = (if compute_analytical then PInf else SNR0),
      c_inverse_operator =
        (if invmethod \<in> set [''MNE'', ''dSPM'', ''eLORETA'', ''sLORETA'']
         then Some Minimum_norm_operator else None),
      c_scaling = scaling,
      c_waveform = waveform, c_goodies = goodies_of epochs_ave, c_noise = noise,
      c_n_channels = length (ch_names epochs_ave)\<rparr>"

fun is_estimate :: "call \<Rightarrow> bool" where
  "is_estimate (Mixed_norm e) = True"
| "is_estimate (Inv_function e s m i) = True"
| "is_estimate c = False"

definition ex_fwd :: forward where
  "ex_fwd = \<lparr>sol_data = [[10 ^ 8, 10 ^ 8, 10 ^ 8]], vertno_lh = [0], vertno_rh = []\<rparr>"

definition ex_evoked :: evoked_file where
  "ex_evoked = \<lparr>ch_names = [''MEG0111'', ''MEG0112'', ''EEG001''], bads = [],
                ave_data = [[1], [1], [1]], picks_mag = [0], picks_grad = [1], picks_eeg = [2]\<rparr>"

definition ex_label :: label where
  "ex_label = \<lparr>name = ''a-lh'', hemi = Lh, vertices = [0]\<rparr>"

definition ex_est :: estimators where
  "ex_est = \<lparr>inv_function = (\<lambda>ev snr m i. [[Fin 1]]),
             mixed_norm = (\<lambda>ev. ([0], [], [[Fin 1]])),
             closed_form = (\<lambda>p. ([], []))\<rparr>"

fun evoked_of :: "call \<Rightarrow> farray" where
  "evoked_of (Mixed_norm e) = e"
| "evoked_of (Inv_function e s m i) = e"
| "evoked_of c = []"

subsection \<open>get_r_master\<close>

text \<open>
  \<^verbatim>\<open>np.floor_divide\<close> and \<^verbatim>\<open>np.mod\<close> on integers round the quotient down, as \<open>div\<close> and
  \<open>mod\<close> on \<open>int\<close> do, and return 0 when the divisor is 0.
\<close>

definition np_floor_divide :: "int \<Rightarrow> int \<Rightarrow> int" where
  "np_floor_divide a b = (if b = 0 then 0 else a div b)"

definition np_mod :: "int \<Rightarrow> int \<Rightarrow> int" where
  "np_mod a b = (if b = 0 then 0 else a mod b)"

text \<open>The slice \<^verbatim>\<open>xs[a:b]\<close> of a Python list, negative bounds counted from the end.\<close>

definition py_slice :: "'a list \<Rightarrow> int \<Rightarrow> int \<Rightarrow> 'a list" where
  "py_slice xs a b =
     (let n = int (length xs);
          lo = (if a < 0 then max 0 (a + n) else min a n);
          hi = (if b < 0 then max 0 (b + n) else min b n)
      in take (nat (hi - lo)) (drop (nat lo) xs))"

text \<open>
  \<^verbatim>\<open>np.array_split(xs, k)\<close>: \<open>k\<close> sections, the first \<open>len(xs) mod k\<close> of them one longer
  than the others; ValueError when \<open>k\<close> is not positive.
\<close>

fun split_sizes :: "'a list \<Rightarrow> nat list \<Rightarrow> 'a list list" where
  "split_sizes xs [] = []"
| "split_sizes xs (n # ns) = take n xs # split_sizes (drop n xs) ns"

definition array_split :: "'a list \<Rightarrow> int \<Rightarrow> error + 'a list list" where
  "array_split xs k =
     (if k \<le> 0 then Inl ValueError
      else Inr (split_sizes xs
                  (replicate (length xs mod nat k) (length xs div nat k + 1) @
                   replicate (nat k - length xs mod nat k) (length xs div nat k))))"

text \<open>A loop whose body may raise: the state is threaded through the items in order.\<close>

fun efold :: "('a \<Rightarrow> 'b \<Rightarrow> error + 'b) \<Rightarrow> 'a list \<Rightarrow> 'b \<Rightarrow> error + 'b" where
  "efold f [] s = Inr s"
| "efold f (x # xs) s = ebind (f x s) (efold f xs)"

definition nth_checked :: "'a list \<Rightarrow> nat \<Rightarrow> error + 'a" where
  "nth_checked xs i = (if i < length xs then Inr (xs ! i) else Inl IndexError)"

text \<open>
  \<^verbatim>\<open>np.concatenate((A, B), axis=1)\<close> on arrays held by columns, \<open>A\<close> with \<open>n_rows\<close> rows:
  ValueError unless \<open>B\<close> has as many rows.
\<close>

definition concatenate_axis1 :: "nat \<Rightarrow> farray \<Rightarrow> farray \<Rightarrow> error + farray" where
  "concatenate_axis1 n_rows A B =
     (if list_all (\<lambda>col. length col = n_rows) B then Inr (A @ B) else Inl ValueError)"

text \<open>
  The tensors are held as one array (by columns) per SNR index.
  \<^verbatim>\<open>r_tensor[:, :, k] = R\<close> writes the array at index \<open>k\<close>: IndexError when \<open>k\<close> is out of
  range; numpy stretches a single column over the \<open>n_cols\<close> columns and raises
  ValueError on any other difference of shape.
\<close>

definition set_slice :: "farray list \<Rightarrow> nat \<Rightarrow> farray \<Rightarrow> nat \<Rightarrow> error + farray list" where
  "set_slice tensor k R n_cols =
     (if k < length tensor then
        (if length R = n_cols then Inr (tensor[k := R])
         else if length R = 1 then Inr (tensor[k := replicate n_cols (R ! 0)])
         else Inl ValueError)
      else Inl IndexError)"

text \<open>
  The two arrays \<^verbatim>\<open>out[i][0]\<close> and \<^verbatim>\<open>out[i][1]\<close> of a result of \<^verbatim>\<open>get_R\<close>, which
  \<^verbatim>\<open>get_r_master\<close> calls with \<^verbatim>\<open>compute_analytical\<close> False, so that the result is the
  pair of empirical matrices.
\<close>

fun out_pair :: "get_R_output \<Rightarrow> error + farray \<times> farray" where
  "out_pair (Empirical R_emp R_label_vert) = Inr (R_emp, R_label_vert)"
| "out_pair (Analytical R_emp R_analytical R) = Inr (R_emp, R_analytical)"
| "out_pair (Empirical_only R_emp) = Inl IndexError"

text \<open>
  The body of the loop over the SNR groups. \<^verbatim>\<open>Parallel\<close> returns the results of
  \<^verbatim>\<open>get_R\<close> in the order of \<^verbatim>\<open>inp_group\<close>; an error of \<^verbatim>\<open>get_R\<close> is raised by
  \<^verbatim>\<open>get_r_master\<close> (the first one, in the order of the inputs).
\<close>

definition make_inp_group :: "xfloat list \<Rightarrow> int \<Rightarrow> label list list \<Rightarrow> (xfloat \<times> label list) list" where
  "make_inp_group SNR_group activation_jobs activation_chunks =
     concat (map (\<lambda>SNR. map (\<lambda>k. (SNR, activation_chunks ! k)) [0 ..< nat activation_jobs])
               SNR_group)"

definition gather_chunks ::
  "nat \<Rightarrow> nat \<Rightarrow> int \<Rightarrow> nat \<Rightarrow> (farray \<times> farray) list \<Rightarrow> nat \<Rightarrow> error + farray \<times> farray" where
  "gather_chunks n_labels vertno activation_jobs n_chunks out c =
     efold (\<lambda>d R.
         ebind (nth_checked out (c * nat activation_jobs + d)) (\<lambda>res.
         ebind (concatenate_axis1 n_labels (fst R) (fst res)) (\<lambda>R_emp.
         ebind (concatenate_axis1 vertno (snd R) (snd res)) (\<lambda>R_emp_vl.
           Inr (R_emp, R_emp_vl)))))
       [0 ..< n_chunks] ([], [])"

definition run_group ::
  "forward \<Rightarrow> evoked_file \<Rightarrow> estimators \<Rightarrow> real list \<Rightarrow> label list \<Rightarrow> string \<Rightarrow> label list \<Rightarrow>
   int \<Rightarrow> nat \<Rightarrow> nat \<times> xfloat list \<Rightarrow> farray list \<times> farray list \<Rightarrow>
   error + farray list \<times> farray list" where
  "run_group fwd epochs_ave est waveform labels inv_method activation_labels activation_jobs vertno
     gg tensors =
     (let group_count = fst gg; SNR_group = snd gg
      in ebind (if activation_jobs \<le> 0 then Inr [] else array_split activation_labels activation_jobs)
           (\<lambda>activation_chunks.
         ebind (emap (\<lambda>inp. ebind (fst (get_R fwd epochs_ave est waveform labels inv_method
                                            (fst inp) (Some (snd inp)) False)) out_pair)
                  (make_inp_group SNR_group activation_jobs activation_chunks)) (\<lambda>out.
           efold (\<lambda>cS ts.
               ebind (gather_chunks (length labels) vertno activation_jobs
                        (length activation_chunks) out (fst cS)) (\<lambda>R.
               ebind (set_slice (fst ts) (fst cS + group_count * length SNR_group) (fst R)
                        (length activation_labels)) (\<lambda>r_tensor.
               ebind (set_slice (snd ts) (fst cS + group_count * length SNR_group) (snd R)
                        (length activation_labels)) (\<lambda>r_tensor_vl.
                 Inr (r_tensor, r_tensor_vl)))))
             (enumerate 0 SNR_group) tensors)))"

text \<open>The two tensors of one inverse method.\<close>

definition method_tensors ::
  "forward \<Rightarrow> evoked_file \<Rightarrow> estimators \<Rightarrow> real list \<Rightarrow> label list \<Rightarrow> label list \<Rightarrow>
   xfloat list \<Rightarrow> xfloat list list \<Rightarrow> int \<Rightarrow> string \<Rightarrow> error + farray list \<times> farray list" where
  "method_tensors fwd epochs_ave est waveform labels activation_labels SNRs SNR_iterations
     activation_jobs inv_method =
     (let vertno = length (vertno_lh fwd) + length (vertno_rh fwd);
          r_tensor = replicate (length SNRs)
                       (replicate (length activation_labels) (replicate (length labels) (Fin 0)));
          r_tensor_vl = replicate (length SNRs)
                          (replicate (length activation_labels) (replicate vertno (Fin 0)))
      in efold (run_group fwd epochs_ave est waveform labels inv_method activation_labels
                  activation_jobs vertno)
           (enumerate 0 SNR_iterations) (r_tensor, r_tensor_vl))"

text \<open>The values of the dictionaries \<^verbatim>\<open>r_master\<close> and \<^verbatim>\<open>r_master_vl\<close>.\<close>

datatype r_entry = Tensor "farray list" | SNR_values "xfloat list"

text \<open>The groups of SNR values that are evaluated together.\<close>

definition make_SNR_iterations :: "xfloat list \<Rightarrow> int \<Rightarrow> xfloat list list" where
  "make_SNR_iterations SNRs SNR_njobs =
     (let iterations = np_floor_divide (int (length SNRs)) SNR_njobs;
          N_remainder = np_mod (int (length SNRs)) SNR_njobs
      in map (\<lambda>iteration. py_slice SNRs (int iteration * SNR_njobs) ((int iteration + 1) * SNR_njobs))
           [0 ..< nat iterations] @
         (if N_remainder \<noteq> 0 then [py_slice SNRs (SNR_njobs * iterations) (int (length SNRs))]
          else []))"

text \<open>
  \<^verbatim>\<open>get_r_master\<close>, with the forward solution and the averaged epochs in place of their
  file names and the estimators in place of \<^verbatim>\<open>inv_function\<close>, as for \<^verbatim>\<open>get_R\<close>;
  the calls of the estimators are not recorded here.
\<close>

definition get_r_master ::
  "xfloat list \<Rightarrow> real list \<Rightarrow> forward \<Rightarrow> label list \<Rightarrow> string list \<Rightarrow> evoked_file \<Rightarrow>
   label list option \<Rightarrow> estimators \<Rightarrow> int \<Rightarrow>
   error + (string \<rightharpoonup> r_entry) \<times> (string \<rightharpoonup> r_entry)" where
  "get_r_master SNRs waveform fwd labels inv_methods epochs_ave activation_labels0 est n_jobs =
     (let SNR_njobs = (if n_jobs < 2 * int (length SNRs) then n_jobs else int (length SNRs));
          activation_jobs = (if n_jobs < 2 * int (length SNRs) then 1
                             else np_floor_divide n_jobs (int (length SNRs)));
          SNR_iterations = make_SNR_iterations SNRs SNR_njobs;
          activation_labels = (case activation_labels0 of None \<Rightarrow> labels | Some a \<Rightarrow> a)
      in ebind (efold (\<lambda>inv_method masters.
                   ebind (method_tensors fwd epochs_ave est waveform labels activation_labels SNRs
                            SNR_iterations activation_jobs inv_method) (\<lambda>ts.
                     Inr ((fst masters)(inv_method \<mapsto> Tensor (fst ts)),
                          (snd masters)(inv_method \<mapsto> Tensor (snd ts)))))
                 inv_methods (Map.empty, Map.empty)) (\<lambda>masters.
           Inr ((fst masters)(''SNRs'' \<mapsto> SNR_values SNRs),
                (snd masters)(''SNRs'' \<mapsto> SNR_values SNRs))))"

text \<open>
  The result the specification describes: for every inverse method one array per SNR
  value, the one \<^verbatim>\<open>get_R\<close> computes at that SNR with the whole list of activation
  labels, the SNR values stored under \<^verbatim>\<open>'SNRs'\<close>.
\<close>

definition r_master_sequential ::
  "xfloat list \<Rightarrow> real list \<Rightarrow> forward \<Rightarrow> label list \<Rightarrow> string list \<Rightarrow> evoked_file \<Rightarrow>
   label list option \<Rightarrow> estimators \<Rightarrow>
   error + (string \<rightharpoonup> r_entry) \<times> (string \<rightharpoonup> r_entry)" where
  "r_master_sequential SNRs waveform fwd labels inv_methods epochs_ave activation_labels0 est =
     (let activation_labels = (case activation_labels0 of None \<Rightarrow> labels | Some a \<Rightarrow> a)
      in ebind (efold (\<lambda>inv_method masters.
                   ebind (emap (\<lambda>SNR. ebind (fst (get_R fwd epochs_ave est waveform labels inv_method
                                                    SNR (Some activation_labels) False)) out_pair)
                            SNRs) (\<lambda>out.
                     Inr ((fst masters)(inv_method \<mapsto> Tensor (map fst out)),
                          (snd masters)(inv_method \<mapsto> Tensor (map snd out)))))
                 inv_methods (Map.empty, Map.empty)) (\<lambda>masters.
           Inr ((fst masters)(''SNRs'' \<mapsto> SNR_values SNRs),
                (snd masters)(''SNRs'' \<mapsto> SNR_values SNRs))))"

text \<open>An estimator that returns its SNR argument, and one that returns the data of the first channel for each of two sources.\<close>

definition ex_est_snr :: estimators where
  "ex_est_snr = \<lparr>inv_function = (\<lambda>ev snr m i. [[snr]]),
                 mixed_norm = (\<lambda>ev. ([0], [], [[Fin 1]])),
                 closed_form = (\<lambda>p. ([], []))\<rparr>"

definition ex_est_echo :: estimators where
  "ex_est_echo = \<lparr>inv_function = (\<lambda>ev snr m i. [ev ! 0, ev ! 0]),
                  mixed_norm = (\<lambda>ev. ([0], [], [[Fin 1]])),
                  closed_form = (\<lambda>p. ([], []))\<rparr>"

definition ex_fwd2 :: forward where
  "ex_fwd2 = \<lparr>sol_data = [[10 ^ 8, 10 ^ 8, 10 ^ 8], [2 * 10 ^ 8, 2 * 10 ^ 8, 2 * 10 ^ 8]],
              vertno_lh = [0, 1], vertno_rh = []\<rparr>"

definition ex_label2 :: label where
  "ex_label2 = \<lparr>name = ''b-lh'', hemi = Lh, vertices = [1]\<rparr>"

section \<open>Properties of remove_diagonal\<close>

lemma np_max_Max:
  assumes "xs \<noteq> []"
  shows "np_max xs = Inr (Max (set xs))"
proof (cases xs)
  case Nil
  with assms show ?thesis by simp
next
  case (Cons x ys)
  then show ?thesis using Max.set_eq_fold[of x ys] by simp
qed

lemma chunks_concat:
  "\<forall>l \<in> set ls. length l = c \<Longrightarrow> chunks (length ls) c (concat ls) = ls"
  by (induction ls) simp_all

lemma length_concat_const:
  "\<forall>l \<in> set ls. length l = c \<Longrightarrow> length (concat ls) = length ls * c"
  by (induction ls) simp_all

lemma filter_update_sentinel:
  "j < length c \<Longrightarrow> v \<notin> set c \<Longrightarrow>
   filter (\<lambda>x. x \<noteq> v) (c[j := v]) = take j c @ drop (Suc j) c"
proof (induction c arbitrary: j)
  case Nil
  then show ?case by simp
next
  case (Cons a c)
  show ?case
  proof (cases j)
    case 0
    have "filter (\<lambda>x. x \<noteq> v) c = c"
      using Cons.prems(2) by (auto intro: filter_True)
    with 0 show ?thesis by simp
  next
    case (Suc k)
    with Cons show ?thesis by auto
  qed
qed


lemma selected_rows:
  assumes sq: "\<forall>c \<in> set A. length c = length A"
      and ns: "\<forall>c \<in> set A. v \<notin> set c"
  shows "map (filter (\<lambda>x. x \<noteq> v)) (fill_diagonal A v) = drop_diag A"
  unfolding fill_diagonal_def drop_diag_def map_map
proof (rule map_cong[OF refl])
  fix j assume "j \<in> set [0 ..< length A]"
  then have j: "j < length A" by simp
  then have "A ! j \<in> set A" by simp
  with sq ns j have "j < length (A ! j)" "v \<notin> set (A ! j)" by auto
  then show "(filter (\<lambda>x. x \<noteq> v) \<circ> (\<lambda>j. (A ! j)[j := v])) j = take j (A ! j) @ drop (Suc j) (A ! j)"
    by (simp add: filter_update_sentinel)
qed

lemma drop_diag_lengths:
  assumes sq: "\<forall>c \<in> set A. length c = length A"
  shows "\<forall>l \<in> set (drop_diag A). length l = length A - 1"
proof
  fix l assume "l \<in> set (drop_diag A)"
  then obtain j where j: "j < length A" and l: "l = take j (A ! j) @ drop (Suc j) (A ! j)"
    by (auto simp: drop_diag_def)
  from j sq have "length (A ! j) = length A" by simp
  with j l show "length l = length A - 1" by simp
qed

lemma remove_diagonal_square:
  assumes a: "a < length h"
      and n: "h ! a \<noteq> []"
      and sq: "\<forall>c \<in> set (h ! a). length c = length (h ! a)"
      and ns: "\<forall>c \<in> set (h ! a). sentinel \<notin> set c"
  shows "remove_diagonal h a =
           (Inr (Suc (length h)), h @ [fill_diagonal (h ! a) sentinel, drop_diag (h ! a)])"
proof -
  let ?A = "h ! a"
  let ?n = "length ?A"
  have len_fd: "length (fill_diagonal ?A sentinel) = ?n"
    by (simp add: fill_diagonal_def)
  have s0: "shape0 (fill_diagonal ?A sentinel) = ?n"
  proof -
    from n obtain c cs where A: "?A = c # cs" by (cases ?A) auto
    then have "length c = ?n" using sq by (metis list.set_intros(1))
    moreover have "fill_diagonal ?A sentinel ! 0 = (?A ! 0)[0 := sentinel]"
    proof -
      from n have "0 < ?n" by simp
      then show ?thesis by (simp add: fill_diagonal_def)
    qed
    ultimately show ?thesis using A len_fd
      by (cases "fill_diagonal ?A sentinel") (auto simp: shape0_def)
  qed
  have sel: "concat (map (filter (\<lambda>x. x \<noteq> sentinel)) (fill_diagonal ?A sentinel))
               = concat (drop_diag ?A)"
    using selected_rows[OF sq ns] by simp
  have len_dd: "length (drop_diag ?A) = ?n" by (simp add: drop_diag_def)
  have len_c: "length (concat (drop_diag ?A)) = ?n * (?n - 1)"
    using length_concat_const[OF drop_diag_lengths[OF sq]] len_dd by simp
  have nat_c: "nat (int ?n - 1) = ?n - 1" by simp
  have rs: "reshape (concat (drop_diag ?A)) ?n (int ?n - 1) = Inr (drop_diag ?A)"
    using n len_c chunks_concat[OF drop_diag_lengths[OF sq]] len_dd
    by (simp add: reshape_def nat_c)
  show ?thesis
    using a by (simp add: remove_diagonal_def np_copy_def np_new_def Let_def shape1_def
        len_fd s0 sel rs nth_append)
qed

text \<open>
  For a square \<open>n\<close> by \<open>n\<close> array with \<open>n \<ge> 1\<close>, none of whose entries is the float64
  sentinel \<open>10^16\<close>, \<^verbatim>\<open>remove_diagonal\<close> returns a new array of \<open>n\<close> columns of
  \<open>n - 1\<close> entries: column \<open>j\<close> is column \<open>j\<close> of the input without its entry \<open>j\<close>, the
  others in their order. The input array is unchanged in the store.
\<close>

theorem remove_diagonal_spec:
  assumes "A < length h"
      and "1 \<le> length (h ! A)"
      and "\<forall>c \<in> set (h ! A). length c = length (h ! A)"
      and "\<forall>c \<in> set (h ! A). sentinel \<notin> set c"
  shows "\<exists>out h'. remove_diagonal h A = (Inr out, h') \<and> h' ! A = h ! A \<and> out \<noteq> A \<and>
           length (h' ! out) = length (h ! A) \<and>
           (\<forall>j < length (h ! A).
              h' ! out ! j = take j (h ! A ! j) @ drop (Suc j) (h ! A ! j) \<and>
              length (h' ! out ! j) = length (h ! A) - 1)"
proof -
  let ?out = "Suc (length h)"
  let ?h' = "h @ [fill_diagonal (h ! A) sentinel, drop_diag (h ! A)]"
  from assms(2) have ne: "h ! A \<noteq> []" by auto
  have r: "remove_diagonal h A = (Inr ?out, ?h')"
    by (rule remove_diagonal_square[OF assms(1) ne assms(3,4)])
  have out: "?h' ! ?out = drop_diag (h ! A)"
    by (simp add: nth_append)
  have same: "?h' ! A = h ! A" using assms(1) by (simp add: nth_append)
  have neq: "?out \<noteq> A" using assms(1) by simp
  have len: "length (drop_diag (h ! A)) = length (h ! A)" by (simp add: drop_diag_def)
  have cols: "\<forall>j < length (h ! A).
      drop_diag (h ! A) ! j = take j (h ! A ! j) @ drop (Suc j) (h ! A ! j) \<and>
      length (drop_diag (h ! A) ! j) = length (h ! A) - 1"
  proof (intro allI impI)
    fix j assume j: "j < length (h ! A)"
    then have "drop_diag (h ! A) ! j \<in> set (drop_diag (h ! A))" using len by simp
    then have "length (drop_diag (h ! A) ! j) = length (h ! A) - 1"
      using drop_diag_lengths[OF assms(3)] by blast
    moreover have "drop_diag (h ! A) ! j = take j (h ! A ! j) @ drop (Suc j) (h ! A ! j)"
      using j by (simp add: drop_diag_def)
    ultimately show "drop_diag (h ! A) ! j = take j (h ! A ! j) @ drop (Suc j) (h ! A ! j) \<and>
      length (drop_diag (h ! A) ! j) = length (h ! A) - 1" by simp
  qed
  have len': "length (?h' ! ?out) = length (h ! A)"
    using len by (simp only: out)
  have cols': "\<forall>j < length (h ! A).
      ?h' ! ?out ! j = take j (h ! A ! j) @ drop (Suc j) (h ! A ! j) \<and>
      length (?h' ! ?out ! j) = length (h ! A) - 1"
    using cols by (simp only: out)
  show ?thesis
    using r same neq len' cols' by blast
qed

theorem remove_diagonal_spec_witness:
  "\<exists>out h'. remove_diagonal [[[1, 2, 3], [4, 5, 6], [7, 8, 9]]] 0 = (Inr out, h') \<and>
     h' ! 0 = [[1, 2, 3], [4, 5, 6], [7, 8, 9]] \<and>
     h' ! out ! 0 = [2, 3] \<and> h' ! out ! 1 = [4, 6] \<and> h' ! out ! 2 = [7, 8]"
proof -
  let ?h = "[[[1, 2, 3], [4, 5, 6], [7, 8, 9 :: real]]]"
  have 1: "0 < length ?h" by simp
  have 2: "1 \<le> length (?h ! 0)" by simp
  have 3: "\<forall>c \<in> set (?h ! 0). length c = length (?h ! 0)" by simp
  have 4: "\<forall>c \<in> set (?h ! 0). sentinel \<notin> set c" by (simp add: sentinel_def)
  from remove_diagonal_spec[OF 1 2 3 4]
  obtain out h' where r: "remove_diagonal ?h 0 = (Inr out, h')" and s: "h' ! 0 = ?h ! 0"
    and c: "\<forall>j < length (?h ! 0). h' ! out ! j = take j (?h ! 0 ! j) @ drop (Suc j) (?h ! 0 ! j) \<and>
              length (h' ! out ! j) = length (?h ! 0) - 1"
    by blast
  from c have "h' ! out ! 0 = [2, 3]" "h' ! out ! 1 = [4, 6]" "h' ! out ! 2 = [7, 8]"
    by simp_all
  with r s show ?thesis by simp
qed

text \<open>
  Claim C9 says that \<^verbatim>\<open>remove_diagonal\<close> returns the columns without their diagonal
  entries for every square array none of whose entries equals 9999999999999999. No
  entry of the two by two array with the rows \<open>(1, 10^16)\<close> and \<open>(2, 3)\<close> equals
  9999999999999999, and its columns without the diagonal entries are \<open>(2)\<close> and
  \<open>(10^16)\<close>. The code compares with the float64 sentinel \<open>10^16\<close>: it drops the
  off-diagonal entry \<open>10^16\<close> with the diagonal, one entry is left, and the reshape to
  two rows of one entry raises ValueError.
\<close>

theorem remove_diagonal_sentinel_ValueError:
  "fst (remove_diagonal [[[1, 2], [10000000000000000, 3]]] 0) = Inl ValueError \<and>
   (9999999999999999 :: real) \<notin> set (concat [[1, 2], [10000000000000000, 3]]) \<and>
   drop_diag [[1, 2], [10000000000000000, 3 :: real]] = [[2], [10000000000000000]]"
proof -
  have 1: "fst (remove_diagonal [[[1, 2], [10000000000000000, 3]]] 0) = Inl ValueError"
    by (simp add: remove_diagonal_def np_copy_def fill_diagonal_def sentinel_def reshape_def
        shape0_def shape1_def upt_rec Let_def)
  have 2: "(9999999999999999 :: real) \<notin> set (concat [[1, 2], [10000000000000000, 3]])"
    by simp
  have 3: "drop_diag [[1, 2], [10000000000000000, 3 :: real]] = [[2], [10000000000000000]]"
    by (simp add: drop_diag_def upt_rec)
  from 1 2 3 show ?thesis by blast
qed

section \<open>Properties of standardize_columns\<close>

lemma standardize_body_ok:
  assumes "arg = ''diag'' \<or> arg = ''max''" and "col_ok arg d (h ! a ! d)"
  shows "standardize_body arg a d h =
           (Inr (), h[a := (h ! a)[d := std_col arg d (h ! a ! d)]])"
proof (cases "arg = ''diag''")
  case True
  with assms show ?thesis
    by (simp add: standardize_body_def col_ok_def std_col_def)
next
  case False
  with assms have m: "arg = ''max''" and ne: "h ! a ! d \<noteq> []"
    by (auto simp: col_ok_def)
  from m ne show ?thesis
    by (simp add: standardize_body_def std_col_def np_max_Max)
qed

lemma standardize_body_other:
  "a' \<noteq> a \<Longrightarrow> snd (standardize_body arg a d h) ! a' = h ! a'"
  by (auto simp: standardize_body_def Let_def split: sum.splits)

lemma standardize_body_length:
  "length (snd (standardize_body arg a d h)) = length h"
  by (auto simp: standardize_body_def Let_def split: sum.splits)

lemma standardize_loop_other:
  "a' \<noteq> a \<Longrightarrow> snd (standardize_loop arg a ds h) ! a' = h ! a'"
proof (induction ds arbitrary: h)
  case Nil
  then show ?case by simp
next
  case (Cons d ds)
  obtain r h1 where b: "standardize_body arg a d h = (r, h1)" by (cases "standardize_body arg a d h")
  have h1: "h1 ! a' = h ! a'"
    using standardize_body_other[OF Cons.prems, of arg d h] b by simp
  show ?case
  proof (cases r)
    case (Inl e)
    with b h1 show ?thesis by simp
  next
    case (Inr u)
    with b h1 Cons.IH[OF Cons.prems, of h1] show ?thesis by simp
  qed
qed

lemma standardize_body_not_ValueError:
  "(\<forall>c \<in> set (h ! a). c \<noteq> []) \<Longrightarrow> d < length (h ! a) \<Longrightarrow>
   fst (standardize_body arg a d h) \<noteq> Inl ValueError"
  apply (cases "h ! a ! d")
  apply (auto simp: standardize_body_def Let_def split: sum.splits if_splits)
  done


lemma standardize_loop_ok:
  assumes arg: "arg = ''diag'' \<or> arg = ''max''"
      and a: "a < length h"
      and dist: "distinct ds"
      and ok: "\<forall>d \<in> set ds. d < length (h ! a) \<and> col_ok arg d (h ! a ! d)"
  shows "standardize_loop arg a ds h =
           (Inr (), h[a := map (\<lambda>j. if j \<in> set ds then std_col arg j (h ! a ! j) else h ! a ! j)
                              [0 ..< length (h ! a)]])"
  using a dist ok
proof (induction ds arbitrary: h)
  case Nil
  have "map (\<lambda>j. h ! a ! j) [0 ..< length (h ! a)] = h ! a"
    by (rule map_nth)
  then show ?case by simp
next
  case (Cons d ds)
  let ?A = "h ! a"
  let ?A1 = "?A[d := std_col arg d (?A ! d)]"
  let ?h1 = "h[a := ?A1]"
  have d: "d < length ?A" and okd: "col_ok arg d (?A ! d)" and dn: "d \<notin> set ds"
    using Cons.prems by auto
  have body: "standardize_body arg a d h = (Inr (), ?h1)"
    using standardize_body_ok[OF arg okd] .
  have h1a: "?h1 ! a = ?A1" using Cons.prems(1) by simp
  have ok1: "\<forall>d' \<in> set ds. d' < length (?h1 ! a) \<and> col_ok arg d' (?h1 ! a ! d')"
  proof
    fix d' assume d': "d' \<in> set ds"
    with dn have "d' \<noteq> d" by auto
    with d' Cons.prems(3) show "d' < length (?h1 ! a) \<and> col_ok arg d' (?h1 ! a ! d')"
      by (simp add: h1a)
  qed
  have ih: "standardize_loop arg a ds ?h1 =
      (Inr (), ?h1[a := map (\<lambda>j. if j \<in> set ds then std_col arg j (?h1 ! a ! j) else ?h1 ! a ! j)
                              [0 ..< length (?h1 ! a)]])"
    using Cons.IH[of ?h1] Cons.prems(1,2) ok1 by simp
  have cols: "map (\<lambda>j. if j \<in> set ds then std_col arg j (?A1 ! j) else ?A1 ! j) [0 ..< length ?A1]
      = map (\<lambda>j. if j \<in> set (d # ds) then std_col arg j (?A ! j) else ?A ! j) [0 ..< length ?A]"
  proof (rule nth_equalityI)
    show "length (map (\<lambda>j. if j \<in> set ds then std_col arg j (?A1 ! j) else ?A1 ! j) [0 ..< length ?A1])
        = length (map (\<lambda>j. if j \<in> set (d # ds) then std_col arg j (?A ! j) else ?A ! j) [0 ..< length ?A])"
      by simp
  next
    fix i
    assume "i < length (map (\<lambda>j. if j \<in> set ds then std_col arg j (?A1 ! j) else ?A1 ! j) [0 ..< length ?A1])"
    then have i: "i < length ?A" by simp
    show "map (\<lambda>j. if j \<in> set ds then std_col arg j (?A1 ! j) else ?A1 ! j) [0 ..< length ?A1] ! i
        = map (\<lambda>j. if j \<in> set (d # ds) then std_col arg j (?A ! j) else ?A ! j) [0 ..< length ?A] ! i"
    proof (cases "i = d")
      case True
      with i dn show ?thesis by simp
    next
      case False
      with i show ?thesis by simp
    qed
  qed
  let ?L1 = "map (\<lambda>j. if j \<in> set ds then std_col arg j (?A1 ! j) else ?A1 ! j) [0 ..< length ?A1]"
  let ?L = "map (\<lambda>j. if j \<in> set (d # ds) then std_col arg j (?A ! j) else ?A ! j) [0 ..< length ?A]"
  have ih': "standardize_loop arg a ds ?h1 = (Inr (), ?h1[a := ?L1])"
    using ih unfolding h1a .
  have "standardize_loop arg a (d # ds) h = standardize_loop arg a ds ?h1"
    by (simp only: standardize_loop.simps body prod.case sum.case)
  also have "\<dots> = (Inr (), ?h1[a := ?L1])" by (rule ih')
  also have "?h1[a := ?L1] = h[a := ?L1]" by (rule list_update_overwrite)
  finally show ?case unfolding cols .
qed


lemma upd_col_length:
  "j < length A \<Longrightarrow> length (A[d := map f (A ! d)] ! j) = length (A ! j)"
  by (cases "j = d") simp_all

lemma standardize_body_shape:
  assumes "a < length h"
  shows "length (snd (standardize_body arg a d h) ! a) = length (h ! a) \<and>
         (\<forall>j < length (h ! a).
            length (snd (standardize_body arg a d h) ! a ! j) = length (h ! a ! j))"
proof -
  consider (diag) "arg = ''diag''" "d < length (h ! a ! d)"
    | (diag_err) "arg = ''diag''" "\<not> d < length (h ! a ! d)"
    | (max_ok) m where "arg = ''max''" "np_max (h ! a ! d) = Inr m"
    | (max_err) e where "arg = ''max''" "np_max (h ! a ! d) = Inl e"
    | (other) "arg \<noteq> ''diag''" "arg \<noteq> ''max''"
    by (cases "np_max (h ! a ! d)") auto
  then show ?thesis
  proof cases
    case diag
    then show ?thesis using assms
      by (simp add: standardize_body_def Let_def upd_col_length)
  next
    case diag_err
    then show ?thesis by (simp add: standardize_body_def)
  next
    case max_ok
    then show ?thesis using assms
      by (simp add: standardize_body_def upd_col_length)
  next
    case max_err
    then show ?thesis by (simp add: standardize_body_def)
  next
    case other
    then show ?thesis by (simp add: standardize_body_def)
  qed
qed

lemma nonempty_columns_iff:
  "(\<forall>c \<in> set A. c \<noteq> []) \<longleftrightarrow> (\<forall>j < length A. length (A ! j) \<noteq> 0)"
  by (auto simp: in_set_conv_nth)

lemma standardize_loop_not_ValueError:
  assumes "a < length h"
      and "\<forall>c \<in> set (h ! a). c \<noteq> []"
      and "\<forall>d \<in> set ds. d < length (h ! a)"
  shows "fst (standardize_loop arg a ds h) \<noteq> Inl ValueError"
  using assms
proof (induction ds arbitrary: h)
  case Nil
  then show ?case by simp
next
  case (Cons d ds)
  obtain r h1 where b: "standardize_body arg a d h = (r, h1)"
    by (cases "standardize_body arg a d h")
  have d: "d < length (h ! a)" using Cons.prems(3) by simp
  have r: "r \<noteq> Inl ValueError"
    using standardize_body_not_ValueError[OF Cons.prems(2) d, of arg] b by simp
  show ?case
  proof (cases r)
    case (Inl e)
    with b r show ?thesis by simp
  next
    case (Inr u)
    have len: "length h1 = length h"
      using standardize_body_length[of arg a d h] b by simp
    have shape: "length (h1 ! a) = length (h ! a) \<and>
        (\<forall>j < length (h ! a). length (h1 ! a ! j) = length (h ! a ! j))"
      using standardize_body_shape[OF Cons.prems(1), of arg d] b by simp
    have ne: "\<forall>c \<in> set (h1 ! a). c \<noteq> []"
      using Cons.prems(2) shape unfolding nonempty_columns_iff by simp
    have "fst (standardize_loop arg a ds h1) \<noteq> Inl ValueError"
      using Cons.IH[of h1] Cons.prems(1,3) len ne shape by simp
    with b Inr show ?thesis by simp
  qed
qed

lemma standardize_columns_unchanged:
  assumes "R < length h"
  shows "snd (standardize_columns h R arg) ! R = h ! R"
proof (cases "arg \<notin> set [''diag'', ''max'']")
  case True
  then show ?thesis by (simp add: standardize_columns_def)
next
  case False
  let ?h1 = "h @ [h ! R]"
  let ?l = "standardize_loop arg (length h) [0 ..< length (?h1 ! length h)] ?h1"
  have ne: "R \<noteq> length h" using assms by simp
  have "snd ?l ! R = ?h1 ! R"
    by (rule standardize_loop_other[OF ne])
  also have "\<dots> = h ! R" using assms by (simp add: nth_append)
  finally have l: "snd ?l ! R = h ! R" .
  have "snd (standardize_columns h R arg) = snd ?l"
    using False by (auto simp: standardize_columns_def np_copy_def split: prod.splits sum.splits)
  with l show ?thesis by simp
qed

lemma standardize_columns_success:
  assumes arg: "arg = ''diag'' \<or> arg = ''max''"
      and ok: "\<forall>d < length (h ! R). col_ok arg d (h ! R ! d)"
  shows "standardize_columns h R arg =
           (Inr (length h),
            h @ [map (\<lambda>j. std_col arg j (h ! R ! j)) [0 ..< length (h ! R)]])"
proof -
  let ?h1 = "h @ [h ! R]"
  let ?a = "length h"
  have a: "?a < length ?h1" by simp
  have h1a: "?h1 ! ?a = h ! R" by simp
  have ok1: "\<forall>d \<in> set [0 ..< length (h ! R)]. d < length (?h1 ! ?a) \<and> col_ok arg d (?h1 ! ?a ! d)"
    using ok by simp
  have loop: "standardize_loop arg ?a [0 ..< length (h ! R)] ?h1 =
      (Inr (), ?h1[?a := map (\<lambda>j. if j \<in> set [0 ..< length (h ! R)]
                                     then std_col arg j (?h1 ! ?a ! j) else ?h1 ! ?a ! j)
                              [0 ..< length (?h1 ! ?a)]])"
    by (rule standardize_loop_ok[OF arg a distinct_upt ok1])
  have m: "map (\<lambda>j. if j \<in> set [0 ..< length (h ! R)]
                       then std_col arg j (?h1 ! ?a ! j) else ?h1 ! ?a ! j) [0 ..< length (?h1 ! ?a)]
         = map (\<lambda>j. std_col arg j (h ! R ! j)) [0 ..< length (h ! R)]"
    by simp
  have upd: "?h1[?a := map (\<lambda>j. std_col arg j (h ! R ! j)) [0 ..< length (h ! R)]]
         = h @ [map (\<lambda>j. std_col arg j (h ! R ! j)) [0 ..< length (h ! R)]]"
    by simp
  have loop': "standardize_loop arg ?a [0 ..< length (h ! R)] ?h1 =
      (Inr (), h @ [map (\<lambda>j. std_col arg j (h ! R ! j)) [0 ..< length (h ! R)]])"
    using loop unfolding m upd .
  show ?thesis
    using arg loop' by (auto simp: standardize_columns_def np_copy_def)
qed

lemma standardize_columns_ValueError_only_if:
  assumes "\<forall>c \<in> set (h ! R). c \<noteq> []"
      and "fst (standardize_columns h R arg) = Inl ValueError"
  shows "arg \<notin> set [''diag'', ''max'']"
proof (rule ccontr)
  assume "\<not> arg \<notin> set [''diag'', ''max'']"
  then have arg: "arg \<in> set [''diag'', ''max'']" by simp
  let ?h1 = "h @ [h ! R]"
  let ?l = "standardize_loop arg (length h) [0 ..< length (?h1 ! length h)] ?h1"
  have "fst ?l \<noteq> Inl ValueError"
    by (rule standardize_loop_not_ValueError) (use assms(1) in simp_all)
  moreover have "fst (standardize_columns h R arg) = Inl ValueError \<longrightarrow> fst ?l = Inl ValueError"
    using arg by (auto simp: standardize_columns_def np_copy_def split: prod.splits sum.splits)
  ultimately show False using assms(2) by simp
qed

text \<open>
  Claim C8, as amended. \<^verbatim>\<open>standardize_columns(R, arg)\<close> raises ValueError whenever
  \<open>arg\<close> is neither \<^verbatim>\<open>'diag'\<close> nor \<^verbatim>\<open>'max'\<close>, leaving the store as it was, and for
  an array with at least one row it raises ValueError only then. In every case the input
  array is unchanged in the store. With \<^verbatim>\<open>'max'\<close> and at least one row the call returns
  a new array in which every column with a nonzero maximum is the input's column divided
  by that maximum; with \<^verbatim>\<open>'diag'\<close> and a diagonal entry in every column it returns a
  new array in which every column with a nonzero diagonal entry is the input's column
  divided by that entry.
\<close>

theorem standardize_columns_amended:
  assumes "R < length h"
  shows "(arg \<notin> set [''diag'', ''max''] \<longrightarrow> standardize_columns h R arg = (Inl ValueError, h)) \<and>
         ((\<forall>c \<in> set (h ! R). c \<noteq> []) \<longrightarrow>
            (fst (standardize_columns h R arg) = Inl ValueError \<longleftrightarrow> arg \<notin> set [''diag'', ''max''])) \<and>
         snd (standardize_columns h R arg) ! R = h ! R \<and>
         ((\<forall>c \<in> set (h ! R). c \<noteq> []) \<longrightarrow>
            (\<exists>out h'. standardize_columns h R ''max'' = (Inr out, h') \<and> out \<noteq> R \<and>
               length (h' ! out) = length (h ! R) \<and>
               (\<forall>d < length (h ! R). Max (set (h ! R ! d)) \<noteq> 0 \<longrightarrow>
                  h' ! out ! d = map (\<lambda>x. x / Max (set (h ! R ! d))) (h ! R ! d)))) \<and>
         ((\<forall>d < length (h ! R). d < length (h ! R ! d)) \<longrightarrow>
            (\<exists>out h'. standardize_columns h R ''diag'' = (Inr out, h') \<and> out \<noteq> R \<and>
               length (h' ! out) = length (h ! R) \<and>
               (\<forall>d < length (h ! R). h ! R ! d ! d \<noteq> 0 \<longrightarrow>
                  h' ! out ! d = map (\<lambda>x. x / h ! R ! d ! d) (h ! R ! d))))"
proof (intro conjI impI)
  assume "arg \<notin> set [''diag'', ''max'']"
  then show "standardize_columns h R arg = (Inl ValueError, h)"
    by (simp add: standardize_columns_def)
next
  assume ne: "\<forall>c \<in> set (h ! R). c \<noteq> []"
  show "fst (standardize_columns h R arg) = Inl ValueError \<longleftrightarrow> arg \<notin> set [''diag'', ''max'']"
  proof
    assume "fst (standardize_columns h R arg) = Inl ValueError"
    with ne show "arg \<notin> set [''diag'', ''max'']"
      by (rule standardize_columns_ValueError_only_if)
  next
    assume "arg \<notin> set [''diag'', ''max'']"
    then show "fst (standardize_columns h R arg) = Inl ValueError"
      by (simp add: standardize_columns_def)
  qed
next
  show "snd (standardize_columns h R arg) ! R = h ! R"
    by (rule standardize_columns_unchanged[OF assms])
next
  assume ne: "\<forall>c \<in> set (h ! R). c \<noteq> []"
  let ?B = "map (\<lambda>j. std_col ''max'' j (h ! R ! j)) [0 ..< length (h ! R)]"
  have ok: "\<forall>d < length (h ! R). col_ok ''max'' d (h ! R ! d)"
    using ne by (simp add: col_ok_def)
  have s: "standardize_columns h R ''max'' = (Inr (length h), h @ [?B])"
    by (rule standardize_columns_success) (use ok in simp_all)
  have "\<forall>d < length (h ! R). (h @ [?B]) ! length h ! d = map (\<lambda>x. x / Max (set (h ! R ! d))) (h ! R ! d)"
    by (simp add: std_col_def)
  moreover have "length ((h @ [?B]) ! length h) = length (h ! R)" by simp
  moreover have "length h \<noteq> R" using assms by simp
  ultimately show "\<exists>out h'. standardize_columns h R ''max'' = (Inr out, h') \<and> out \<noteq> R \<and>
               length (h' ! out) = length (h ! R) \<and>
               (\<forall>d < length (h ! R). Max (set (h ! R ! d)) \<noteq> 0 \<longrightarrow>
                  h' ! out ! d = map (\<lambda>x. x / Max (set (h ! R ! d))) (h ! R ! d))"
    using s by blast
next
  assume sq: "\<forall>d < length (h ! R). d < length (h ! R ! d)"
  let ?B = "map (\<lambda>j. std_col ''diag'' j (h ! R ! j)) [0 ..< length (h ! R)]"
  have ok: "\<forall>d < length (h ! R). col_ok ''diag'' d (h ! R ! d)"
    using sq by (simp add: col_ok_def)
  have s: "standardize_columns h R ''diag'' = (Inr (length h), h @ [?B])"
    by (rule standardize_columns_success) (use ok in simp_all)
  have "\<forall>d < length (h ! R). (h @ [?B]) ! length h ! d = map (\<lambda>x. x / h ! R ! d ! d) (h ! R ! d)"
    by (simp add: std_col_def)
  moreover have "length ((h @ [?B]) ! length h) = length (h ! R)" by simp
  moreover have "length h \<noteq> R" using assms by simp
  ultimately show "\<exists>out h'. standardize_columns h R ''diag'' = (Inr out, h') \<and> out \<noteq> R \<and>
               length (h' ! out) = length (h ! R) \<and>
               (\<forall>d < length (h ! R). h ! R ! d ! d \<noteq> 0 \<longrightarrow>
                  h' ! out ! d = map (\<lambda>x. x / h ! R ! d ! d) (h ! R ! d))"
    using s by blast
qed

theorem standardize_columns_amended_witness:
  "standardize_columns [[[1, 2], [3, 4]]] 0 ''mean'' = (Inl ValueError, [[[1, 2], [3, 4]]]) \<and>
   snd (standardize_columns [[[1, 2], [3, 4]]] 0 ''max'') ! 0 = [[1, 2], [3, 4]] \<and>
   (\<exists>out h'. standardize_columns [[[1, 2], [3, 4]]] 0 ''max'' = (Inr out, h') \<and>
      h' ! out ! 0 = [1 / 2, 1] \<and> h' ! out ! 1 = [3 / 4, 1]) \<and>
   (\<exists>out h'. standardize_columns [[[1, 2], [3, 4]]] 0 ''diag'' = (Inr out, h') \<and>
      h' ! out ! 0 = [1, 2] \<and> h' ! out ! 1 = [3 / 4, 1])"
proof -
  let ?h = "[[[1, 2], [3, 4 :: real]]]"
  have 0: "0 < length ?h" by simp
  have ne: "\<forall>c \<in> set (?h ! 0). c \<noteq> []" by simp
  have sq: "\<forall>d < length (?h ! 0). d < length (?h ! 0 ! d)"
    by (simp add: less_Suc_eq)
  have m0: "Max (set (?h ! 0 ! 0)) = 2" and m1: "Max (set (?h ! 0 ! 1)) = 4" by simp_all
  note t1 = standardize_columns_amended[OF 0, of "''mean''"]
  note t2 = standardize_columns_amended[OF 0, of "''max''"]
  from t1 have a: "standardize_columns ?h 0 ''mean'' = (Inl ValueError, ?h)" by simp
  from t2 have b: "snd (standardize_columns ?h 0 ''max'') ! 0 = ?h ! 0" by blast
  from t2 ne obtain out h' where c: "standardize_columns ?h 0 ''max'' = (Inr out, h')"
    and c': "\<forall>d < length (?h ! 0). Max (set (?h ! 0 ! d)) \<noteq> 0 \<longrightarrow>
                  h' ! out ! d = map (\<lambda>x. x / Max (set (?h ! 0 ! d))) (?h ! 0 ! d)"
    by blast
  from c' have c0: "h' ! out ! 0 = [1 / 2, 1]" using m0 by simp
  from c' have c1: "h' ! out ! 1 = [3 / 4, 1]" using m1 by simp
  from t2 sq obtain out2 h2 where d: "standardize_columns ?h 0 ''diag'' = (Inr out2, h2)"
    and d': "\<forall>d < length (?h ! 0). ?h ! 0 ! d ! d \<noteq> 0 \<longrightarrow>
                  h2 ! out2 ! d = map (\<lambda>x. x / ?h ! 0 ! d ! d) (?h ! 0 ! d)"
    by blast
  from d' have d0: "h2 ! out2 ! 0 = [1, 2]" by simp
  from d' have d1: "h2 ! out2 ! 1 = [3 / 4, 1]" by simp
  from a b c c0 c1 d d0 d1 show ?thesis by simp
qed

text \<open>
  The claim as stated fails on an array with a column and no row: \<^verbatim>\<open>np.max\<close> of the
  empty column raises ValueError although \<open>arg\<close> is \<^verbatim>\<open>'max'\<close>.
\<close>

theorem standardize_columns_claim_counterexample:
  "''max'' \<in> set [''diag'', ''max''] \<and> fst (standardize_columns [[[]]] 0 ''max'') = Inl ValueError"
  by (simp add: standardize_columns_def np_copy_def standardize_body_def)

section \<open>Properties of get_roc\<close>

lemma roc_body_eq:
  assumes "c < length ROC" and "length (ROC ! c) = 2"
  shows "roc_body dg off (c, T) (ROC, st) =
           (ROC[c := roc_column dg (concat off) T], add_stats dg (concat off) [T] st)"
proof -
  from assms(2) obtain a b where ab: "ROC ! c = [a, b]"
    by (cases "ROC ! c"; cases "tl (ROC ! c)"; cases "tl (tl (ROC ! c))") auto
  show ?thesis
    using assms(1) ab
    by (simp add: roc_body_def Let_def roc_column_def add_stats_def)
qed

lemma add_stats_Cons:
  "add_stats dg off Ts (add_stats dg off [T] st) = add_stats dg off (T # Ts) st"
  by (simp add: add_stats_def)

lemma fold_roc_body:
  assumes "k + length Ts \<le> length ROC" and "\<forall>col \<in> set ROC. length col = 2"
  shows "fold (roc_body dg off) (enumerate k Ts) (ROC, st) =
           (take k ROC @ map (roc_column dg (concat off)) Ts @ drop (k + length Ts) ROC,
            add_stats dg (concat off) Ts st)"
  using assms
proof (induction Ts arbitrary: k ROC st)
  case Nil
  then show ?case by (simp add: add_stats_def)
next
  case (Cons T Ts)
  let ?X = "roc_column dg (concat off) T"
  have k: "k < length ROC" using Cons.prems(1) by simp
  then have l2: "length (ROC ! k) = 2" using Cons.prems(2) by simp
  have step: "roc_body dg off (k, T) (ROC, st) = (ROC[k := ?X], add_stats dg (concat off) [T] st)"
    by (rule roc_body_eq[OF k l2])
  have len2: "\<forall>col \<in> set (ROC[k := ?X]). length col = 2"
  proof
    fix col assume "col \<in> set (ROC[k := ?X])"
    then have "col \<in> insert ?X (set ROC)" using set_update_subset_insert by fast
    then show "length col = 2" using Cons.prems(2) by (auto simp: roc_column_def)
  qed
  have ih: "fold (roc_body dg off) (enumerate (Suc k) Ts) (ROC[k := ?X], add_stats dg (concat off) [T] st)
      = (take (Suc k) (ROC[k := ?X]) @ map (roc_column dg (concat off)) Ts @
           drop (Suc k + length Ts) (ROC[k := ?X]),
         add_stats dg (concat off) Ts (add_stats dg (concat off) [T] st))"
    by (rule Cons.IH) (use Cons.prems(1) len2 in simp_all)
  have t: "take (Suc k) (ROC[k := ?X]) = take k ROC @ [?X]"
    using k by (simp add: take_Suc_conv_app_nth)
  have d: "drop (Suc k + length Ts) (ROC[k := ?X]) = drop (k + length (T # Ts)) ROC"
    by simp
  show ?case
    using step ih by (simp add: t add_stats_Cons)
qed

lemma roc_zeros_cols: "\<forall>col \<in> set roc_zeros. length col = 2"
  by (simp add: roc_zeros_def)

lemma length_linspace: "length (linspace a b n) = n"
  by (simp add: linspace_def)

lemma length_thresholds: "length thresholds = 100"
  by (simp add: thresholds_def length_linspace n_T_def)

lemma fold_roc_zeros:
  "fold (roc_body dg off) (enumerate 0 thresholds)
       (roc_zeros, \<lparr>TPs = [], FNs = [], TNs = [], FPs = []\<rparr>)
   = (map (roc_column dg (concat off)) thresholds @ replicate 3 [Some 0, Some 0],
      add_stats dg (concat off) thresholds \<lparr>TPs = [], FNs = [], TNs = [], FPs = []\<rparr>)"
proof -
  have le: "0 + length thresholds \<le> length roc_zeros"
    by (simp add: length_thresholds roc_zeros_def n_T_def)
  have d: "drop (0 + length thresholds) roc_zeros = replicate 3 [Some 0, Some 0]"
    by (simp add: length_thresholds roc_zeros_def n_T_def)
  show ?thesis
    using fold_roc_body[OF le roc_zeros_cols, of dg off] unfolding d by simp
qed

lemma map_index_nth: "map (\<lambda>j. f (xs ! j)) [0 ..< length xs] = map f xs"
proof -
  have "map (\<lambda>j. f (xs ! j)) [0 ..< length xs] = map f (map ((!) xs) [0 ..< length xs])"
    by (simp add: comp_def)
  then show ?thesis by (simp only: map_nth)
qed

lemma standardize_columns_max:
  assumes "\<forall>c \<in> set (h ! R). c \<noteq> []"
  shows "standardize_columns h R ''max'' = (Inr (length h), h @ [col_standardized (h ! R)])"
proof -
  have ok: "\<forall>d < length (h ! R). col_ok ''max'' d (h ! R ! d)"
    using assms by (simp add: col_ok_def)
  have e: "\<And>j c. std_col ''max'' j c = map (\<lambda>x. x / Max (set c)) c"
    by (simp add: std_col_def)
  have "map (\<lambda>j. std_col ''max'' j (h ! R ! j)) [0 ..< length (h ! R)]
        = map (\<lambda>c. map (\<lambda>x. x / Max (set c)) c) (h ! R)"
    unfolding e by (rule map_index_nth)
  then show ?thesis
    using standardize_columns_success[of "''max''" h R, OF _ ok]
    by (simp add: col_standardized_def)
qed

lemma take_drop_filter_index:
  "map (\<lambda>i. xs ! i) (filter (\<lambda>i. i \<noteq> j) [0 ..< length xs]) = take j xs @ drop (Suc j) xs"
proof (induction xs arbitrary: j rule: rev_induct)
  case Nil
  then show ?case by simp
next
  case (snoc x xs)
  have pre: "map (\<lambda>i. (xs @ [x]) ! i) (filter (\<lambda>i. i \<noteq> j) [0 ..< length xs])
      = map (\<lambda>i. xs ! i) (filter (\<lambda>i. i \<noteq> j) [0 ..< length xs])"
    by (rule map_cong) (auto simp: nth_append)
  show ?case
  proof (cases "j = length xs")
    case True
    have f: "filter (\<lambda>i. i \<noteq> length xs) [0 ..< length xs] = [0 ..< length xs]"
      by (rule filter_True) simp
    have "map (\<lambda>i. (xs @ [x]) ! i) [0 ..< length xs] = map (\<lambda>i. xs ! i) [0 ..< length xs]"
      by (rule map_cong) (auto simp: nth_append)
    also have "\<dots> = xs" by (rule map_nth)
    finally have m: "map (\<lambda>i. (xs @ [x]) ! i) [0 ..< length xs] = xs" .
    show ?thesis unfolding True by (simp add: f m)
  next
    case False
    have "map (\<lambda>i. (xs @ [x]) ! i) (filter (\<lambda>i. i \<noteq> j) [0 ..< length (xs @ [x])])
        = (take j xs @ drop (Suc j) xs) @ [x]"
      using False pre snoc.IH[of j] by simp
    also have "\<dots> = take j (xs @ [x]) @ drop (Suc j) (xs @ [x])"
      using False by (cases "j < length xs") simp_all
    finally show ?thesis .
  qed
qed

lemma concat_drop_diag: "concat (drop_diag A) = offdiag_entries A"
  unfolding drop_diag_def offdiag_entries_def
  by (simp add: take_drop_filter_index)

lemma col_standardized_shape:
  "length (col_standardized A) = length A"
  "j < length A \<Longrightarrow> length (col_standardized A ! j) = length (A ! j)"
  "(\<forall>c \<in> set (col_standardized A). length c = n) \<longleftrightarrow> (\<forall>c \<in> set A. length c = n)"
  by (simp_all add: col_standardized_def)

lemma col_standardized_no_sentinel:
  assumes "\<forall>c \<in> set A. \<forall>x \<in> set c. x / Max (set c) \<noteq> sentinel"
  shows "\<forall>c \<in> set (col_standardized A). sentinel \<notin> set c"
proof
  fix c assume "c \<in> set (col_standardized A)"
  then obtain c0 where c0: "c0 \<in> set A" and c: "c = map (\<lambda>x. x / Max (set c0)) c0"
    by (auto simp: col_standardized_def)
  show "sentinel \<notin> set c"
  proof
    assume "sentinel \<in> set c"
    then obtain x where "x \<in> set c0" "sentinel = x / Max (set c0)"
      using c by auto
    with assms c0 show False by metis
  qed
qed

lemma np_diag_square:
  assumes "A \<noteq> []" and "\<forall>c \<in> set A. length c = length A"
  shows "np_diag A = map (\<lambda>i. A ! i ! i) [0 ..< length A]"
proof -
  from assms obtain c cs where "A = c # cs" by (cases A) auto
  with assms(2) have "shape0 A = length A" by (simp add: shape0_def)
  then show ?thesis by (simp add: np_diag_def shape1_def)
qed

lemma get_roc_square:
  assumes R: "R < length h"
      and ne: "h ! R \<noteq> []"
      and sq: "\<forall>c \<in> set (h ! R). length c = length (h ! R)"
      and ns: "\<forall>c \<in> set (h ! R). \<forall>x \<in> set c. x / Max (set c) \<noteq> sentinel"
  shows "get_roc h R =
     (Inr (roc_curve (col_standardized (h ! R)),
           map_option abs (trapz (map (\<lambda>col. col ! 1) (roc_curve (col_standardized (h ! R))))
                                 (map (\<lambda>col. col ! 0) (roc_curve (col_standardized (h ! R))))),
           add_stats (np_diag (col_standardized (h ! R))) (offdiag_entries (col_standardized (h ! R)))
             thresholds \<lparr>TPs = [], FNs = [], TNs = [], FPs = []\<rparr>),
      h @ [col_standardized (h ! R), fill_diagonal (col_standardized (h ! R)) sentinel,
           drop_diag (col_standardized (h ! R))])"
proof -
  let ?A = "h ! R"
  let ?S = "col_standardized ?A"
  let ?h1 = "h @ [?S]"
  have nonempty: "\<forall>c \<in> set ?A. c \<noteq> []"
    using ne sq by auto
  have std: "standardize_columns h R ''max'' = (Inr (length h), ?h1)"
    by (rule standardize_columns_max[OF nonempty])
  have h1: "?h1 ! length h = ?S" by simp
  have a: "length h < length ?h1" by simp
  have ne1: "?h1 ! length h \<noteq> []" using ne by (simp add: col_standardized_def)
  have sq1: "\<forall>c \<in> set (?h1 ! length h). length c = length (?h1 ! length h)"
    using sq by (simp add: col_standardized_shape)
  have ns1: "\<forall>c \<in> set (?h1 ! length h). sentinel \<notin> set c"
    using col_standardized_no_sentinel[OF ns] by simp
  have rd: "remove_diagonal ?h1 (length h) =
      (Inr (Suc (length ?h1)), ?h1 @ [fill_diagonal (?h1 ! length h) sentinel, drop_diag (?h1 ! length h)])"
    by (rule remove_diagonal_square[OF a ne1 sq1 ns1])
  have rd': "remove_diagonal ?h1 (length h) =
      (Inr (Suc (Suc (length h))), h @ [?S, fill_diagonal ?S sentinel, drop_diag ?S])"
    using rd by simp
  have off: "(h @ [?S, fill_diagonal ?S sentinel, drop_diag ?S]) ! Suc (Suc (length h)) = drop_diag ?S"
    by (simp add: nth_append)
  show ?thesis
    unfolding get_roc_def std prod.case sum.case Let_def h1 rd' off fold_roc_zeros
    by (simp add: roc_curve_def concat_drop_diag)
qed

lemma count_true_mono:
  "(\<And>x. P x \<Longrightarrow> Q x) \<Longrightarrow> count_true P xs \<le> count_true Q xs"
  unfolding count_true_def by (induction xs) auto

lemma count_true_le_length: "count_true P xs \<le> length xs"
  unfolding count_true_def by (rule length_filter_le)

lemma count_true_cover:
  "length xs \<le> count_true (\<lambda>x. x \<ge> T) xs + count_true (\<lambda>x. x \<le> (T::real)) xs"
  unfolding count_true_def by (induction xs) auto

lemma count_true_map: "count_true P (map f xs) = count_true (\<lambda>i. P (f i)) xs"
  unfolding count_true_def by (simp add: filter_map comp_def)

lemma rate_antitone:
  fixes a b a' b' :: nat
  assumes "a' \<le> a" and "b \<le> b'" and "0 < a' + b'" and "0 < a + b"
  shows "real a' / real (a' + b') \<le> real a / real (a + b)"
proof -
  have "a' * b \<le> a * b'" using assms(1,2) by (rule mult_le_mono)
  then have "a' * (a + b) \<le> a * (a' + b')" by (simp add: algebra_simps)
  then have "real (a' * (a + b)) \<le> real (a * (a' + b'))" by (rule of_nat_mono)
  then have "real a' * real (a + b) \<le> real a * real (a' + b')" by simp
  moreover have "0 < real (a' + b')" using assms(3) by (simp only: of_nat_0_less_iff)
  moreover have "0 < real (a + b)" using assms(4) by (simp only: of_nat_0_less_iff)
  ultimately show ?thesis by (simp only: pos_divide_le_eq pos_le_divide_eq times_divide_eq_left)
qed

lemma rate_unit:
  fixes a b :: nat
  assumes "0 < a + b"
  shows "0 \<le> real a / real (a + b) \<and> real a / real (a + b) \<le> 1"
proof -
  have p: "0 < real (a + b)" using assms by (simp only: of_nat_0_less_iff)
  have "real a \<le> real (a + b)" by simp
  then have "real a / real (a + b) \<le> 1" using p by (simp only: divide_le_eq_1_pos)
  moreover have "0 \<le> real a / real (a + b)" by simp
  ultimately show ?thesis by simp
qed

lemma trapz_sum_bounds:
  assumes "length ys = length xs" and "xs \<noteq> []" and "sorted_wrt (\<ge>) xs"
      and "\<forall>y \<in> set ys. 0 \<le> y \<and> y \<le> 1"
  shows "- (hd xs - last xs) \<le> trapz_sum ys xs \<and> trapz_sum ys xs \<le> 0"
  using assms
proof (induction ys xs rule: trapz_sum.induct)
  case (1 y0 y1 ys x0 x1 xs)
  let ?d = "x0 - x1"
  let ?m = "(y1 + y0) / 2"
  have d: "0 \<le> ?d" using "1.prems"(3) by simp
  have m: "0 \<le> ?m" "?m \<le> 1" using "1.prems"(4) by simp_all
  have dm: "0 \<le> ?d * ?m" using d m(1) by (rule mult_nonneg_nonneg)
  have dm': "?d * ?m \<le> ?d" using m(2) d by (rule mult_left_le)
  have t: "(x1 - x0) * (y1 + y0) / 2 = - (?d * ?m)" by (simp add: field_simps)
  have ih: "- (hd (x1 # xs) - last (x1 # xs)) \<le> trapz_sum (y1 # ys) (x1 # xs) \<and>
            trapz_sum (y1 # ys) (x1 # xs) \<le> 0"
    by (rule "1.IH") (use "1.prems" in simp_all)
  have l: "last (x0 # x1 # xs) = last (x1 # xs)" by simp
  show ?case
    unfolding trapz_sum.simps(1) t l using ih dm dm' by simp
qed (auto simp: Suc_length_conv length_Suc_conv)

lemma trapz_sum_unit:
  assumes "length ys = length xs" and "xs \<noteq> []" and "sorted_wrt (\<ge>) xs"
      and "\<forall>y \<in> set ys. 0 \<le> y \<and> y \<le> 1" and "\<forall>x \<in> set xs. 0 \<le> x \<and> x \<le> 1"
  shows "\<bar>trapz_sum ys xs\<bar> \<le> 1"
proof -
  have "hd xs \<le> 1" "0 \<le> last xs"
    using assms(2,5) by simp_all
  with trapz_sum_bounds[OF assms(1-4)] show ?thesis by simp
qed

lemma sorted_linspace:
  assumes "a \<le> b"
  shows "sorted_wrt (\<le>) (linspace a b n)"
proof -
  have step: "0 \<le> (b - a) / real (n - 1)" using assms by simp
  have "sorted_wrt (\<lambda>i j. a + real i * ((b - a) / real (n - 1)) \<le> a + real j * ((b - a) / real (n - 1)))
          [0 ..< n]"
  proof (rule sorted_wrt_mono_rel[OF _ sorted_wrt_upt])
    fix i j :: nat assume "i < j"
    then have "real i \<le> real j" by simp
    then have "real i * ((b - a) / real (n - 1)) \<le> real j * ((b - a) / real (n - 1))"
      using step by (rule mult_right_mono)
    then show "a + real i * ((b - a) / real (n - 1)) \<le> a + real j * ((b - a) / real (n - 1))"
      by simp
  qed
  then show ?thesis by (simp add: linspace_def sorted_wrt_map)
qed

lemma cover_pos:
  assumes "off \<noteq> []"
  shows "0 < count_true (\<lambda>x. x \<ge> T) off + count_true (\<lambda>x. x \<le> (T::real)) off"
proof -
  have "0 < length off" using assms by simp
  with count_true_cover[of off T] show ?thesis by linarith
qed

lemma diag_total:
  "count_true P dg + (length dg - count_true P dg) = length dg"
  using count_true_le_length[of P dg] by simp

lemma roc_column_finite:
  assumes "dg \<noteq> []" and "off \<noteq> []"
  shows "roc_column dg off T = [Some (fpr_at off T), Some (tpr_at dg T)]"
  using cover_pos[OF assms(2), of T] assms(1)
  by (simp add: roc_column_def true_divide_def fpr_at_def tpr_at_def diag_total)

lemma fpr_unit:
  assumes "off \<noteq> []"
  shows "0 \<le> fpr_at off T \<and> fpr_at off T \<le> 1"
  unfolding fpr_at_def by (rule rate_unit[OF cover_pos[OF assms]])

lemma tpr_unit:
  assumes "dg \<noteq> []"
  shows "0 \<le> tpr_at dg T \<and> tpr_at dg T \<le> 1"
proof -
  have "0 < count_true (\<lambda>x. x > T) dg + (length dg - count_true (\<lambda>x. x > T) dg)"
    using assms by (simp add: diag_total)
  then show ?thesis unfolding tpr_at_def by (rule rate_unit)
qed

lemma fpr_antitone:
  assumes "off \<noteq> []" and "T \<le> T'"
  shows "fpr_at off T' \<le> fpr_at off T"
  unfolding fpr_at_def
proof (rule rate_antitone)
  show "count_true (\<lambda>x. x \<ge> T') off \<le> count_true (\<lambda>x. x \<ge> T) off"
    by (rule count_true_mono) (use assms(2) in simp)
  show "count_true (\<lambda>x. x \<le> T) off \<le> count_true (\<lambda>x. x \<le> T') off"
    by (rule count_true_mono) (use assms(2) in simp)
  show "0 < count_true (\<lambda>x. x \<ge> T') off + count_true (\<lambda>x. x \<le> T') off"
    by (rule cover_pos[OF assms(1)])
  show "0 < count_true (\<lambda>x. x \<ge> T) off + count_true (\<lambda>x. x \<le> T) off"
    by (rule cover_pos[OF assms(1)])
qed

lemma sorted_fpr:
  assumes "off \<noteq> []" and "sorted_wrt (\<le>) Ts"
  shows "sorted_wrt (\<ge>) (map (fpr_at off) Ts @ [0, 0, 0])"
proof -
  have "sorted_wrt (\<lambda>T T'. fpr_at off T \<ge> fpr_at off T') Ts"
    by (rule sorted_wrt_mono_rel[OF _ assms(2)]) (rule fpr_antitone[OF assms(1)])
  then have "sorted_wrt (\<ge>) (map (fpr_at off) Ts)" by (simp add: sorted_wrt_map)
  moreover have "\<forall>x \<in> set (map (fpr_at off) Ts). x \<ge> 0"
    using fpr_unit[OF assms(1)] by simp
  ultimately show ?thesis by (simp add: sorted_wrt_append)
qed

lemma roc_curve_rows:
  assumes "np_diag S \<noteq> []" and "offdiag_entries S \<noteq> []"
  shows "map (\<lambda>col. col ! 0) (roc_curve S)
           = map Some (map (fpr_at (offdiag_entries S)) thresholds @ [0, 0, 0])"
    and "map (\<lambda>col. col ! 1) (roc_curve S)
           = map Some (map (tpr_at (np_diag S)) thresholds @ [0, 0, 0])"
  by (simp_all add: roc_curve_def roc_column_finite[OF assms] comp_def numeral_3_eq_3)

lemma trapz_Some: "trapz (map Some ys) (map Some xs) = Some (trapz_sum ys xs)"
  by (auto simp: trapz_def comp_def)

lemma roc_area_unit:
  assumes "np_diag S \<noteq> []" and "offdiag_entries S \<noteq> []"
  shows "\<exists>a. map_option abs (trapz (map (\<lambda>col. col ! 1) (roc_curve S)) (map (\<lambda>col. col ! 0) (roc_curve S)))
               = Some a \<and> 0 \<le> a \<and> a \<le> 1"
proof -
  let ?Ts = "thresholds"
  let ?xs = "map (fpr_at (offdiag_entries S)) ?Ts @ [0, 0, 0]"
  let ?ys = "map (tpr_at (np_diag S)) ?Ts @ [0, 0, 0]"
  have srt: "sorted_wrt (\<le>) ?Ts" unfolding thresholds_def by (rule sorted_linspace) simp
  have "\<bar>trapz_sum ?ys ?xs\<bar> \<le> 1"
  proof (rule trapz_sum_unit)
    show "length ?ys = length ?xs" by simp
    show "?xs \<noteq> []" by simp
    show "sorted_wrt (\<ge>) ?xs" by (rule sorted_fpr[OF assms(2) srt])
    show "\<forall>y \<in> set ?ys. 0 \<le> y \<and> y \<le> 1" using tpr_unit[OF assms(1)] by auto
    show "\<forall>x \<in> set ?xs. 0 \<le> x \<and> x \<le> 1" using fpr_unit[OF assms(2)] by auto
  qed
  then show ?thesis
    unfolding roc_curve_rows[OF assms] trapz_Some by simp
qed

lemma offdiag_nonempty:
  assumes "2 \<le> length S" and "\<forall>c \<in> set S. length c = length S"
  shows "offdiag_entries S \<noteq> []"
proof -
  have "length (concat (drop_diag S)) = length (drop_diag S) * (length S - 1)"
    by (rule length_concat_const[OF drop_diag_lengths[OF assms(2)]])
  also have "\<dots> = length S * (length S - 1)" by (simp add: drop_diag_def)
  finally have e: "length (concat (drop_diag S)) = length S * (length S - 1)" .
  have "0 < length S" "0 < length S - 1" using assms(1) by linarith+
  then have "0 < length S * (length S - 1)" by (rule mult_pos_pos)
  with e have "0 < length (concat (drop_diag S))" by linarith
  then show ?thesis unfolding concat_drop_diag by simp
qed

lemma linspace_nth:
  "c < n \<Longrightarrow> linspace a b n ! c = a + real c * ((b - a) / real (n - 1))"
  by (simp add: linspace_def)

lemma thresholds_nth:
  assumes "c < 100"
  shows "thresholds ! c = - 0.01 + real c * (1.02 / 99)"
  using assms by (simp add: thresholds_def linspace_nth n_T_def)

lemma add_stats_nth:
  assumes "c < length Ts"
  shows "TPs (add_stats dg off Ts \<lparr>TPs = [], FNs = [], TNs = [], FPs = []\<rparr>) ! c
           = count_true (\<lambda>x. x > Ts ! c) dg"
    and "FNs (add_stats dg off Ts \<lparr>TPs = [], FNs = [], TNs = [], FPs = []\<rparr>) ! c
           = length dg - count_true (\<lambda>x. x > Ts ! c) dg"
    and "TNs (add_stats dg off Ts \<lparr>TPs = [], FNs = [], TNs = [], FPs = []\<rparr>) ! c
           = count_true (\<lambda>x. x \<le> Ts ! c) off"
    and "FPs (add_stats dg off Ts \<lparr>TPs = [], FNs = [], TNs = [], FPs = []\<rparr>) ! c
           = count_true (\<lambda>x. x \<ge> Ts ! c) off"
  using assms by (simp_all add: add_stats_def)

lemma get_roc_Inr:
  assumes "get_roc h R = (Inr (ROC, acu, stats), h')"
  shows "\<exists>dg off. ROC = map (roc_column dg off) thresholds @ replicate 3 [Some 0, Some 0] \<and>
           stats = add_stats dg off thresholds \<lparr>TPs = [], FNs = [], TNs = [], FPs = []\<rparr>"
proof -
  obtain r1 h1 where s: "standardize_columns h R ''max'' = (r1, h1)"
    by (cases "standardize_columns h R ''max''")
  show ?thesis
  proof (cases r1)
    case (Inl e)
    with s assms show ?thesis by (simp add: get_roc_def)
  next
    case (Inr Rm)
    obtain r2 h2 where d: "remove_diagonal h1 Rm = (r2, h2)"
      by (cases "remove_diagonal h1 Rm")
    show ?thesis
    proof (cases r2)
      case (Inl e)
      with s Inr d assms show ?thesis by (simp add: get_roc_def)
    next
      case off: (Inr off)
      from assms show ?thesis
        by (simp add: get_roc_def s Inr d off Let_def fold_roc_zeros) blast
    qed
  qed
qed

text \<open>
  Claim C10. Whenever \<^verbatim>\<open>get_roc\<close> returns, the array \<^verbatim>\<open>ROC\<close> has 103 columns of two
  entries, the sweep has recorded 100 thresholds, and the last three columns are
  \<open>(0, 0)\<close>. It does return for every square array with at least one row whose
  standardized entries differ from the sentinel of \<^verbatim>\<open>remove_diagonal\<close>.
\<close>

theorem get_roc_shape:
  "(\<forall>ROC acu stats h'. get_roc h R = (Inr (ROC, acu, stats), h') \<longrightarrow>
      length ROC = 103 \<and> (\<forall>col \<in> set ROC. length col = 2) \<and>
      length (TPs stats) = 100 \<and>
      drop 100 ROC = [[Some 0, Some 0], [Some 0, Some 0], [Some 0, Some 0]]) \<and>
   (R < length h \<and> h ! R \<noteq> [] \<and> (\<forall>c \<in> set (h ! R). length c = length (h ! R)) \<and>
    (\<forall>c \<in> set (h ! R). \<forall>x \<in> set c. x / Max (set c) \<noteq> sentinel) \<longrightarrow>
      (\<exists>ROC acu stats h'. get_roc h R = (Inr (ROC, acu, stats), h')))"
proof (intro conjI allI impI)
  fix ROC acu stats h'
  assume "get_roc h R = (Inr (ROC, acu, stats), h')"
  from get_roc_Inr[OF this] obtain dg off where
    ROC: "ROC = map (roc_column dg off) thresholds @ replicate 3 [Some 0, Some 0]"
    and st: "stats = add_stats dg off thresholds \<lparr>TPs = [], FNs = [], TNs = [], FPs = []\<rparr>"
    by blast
  show "length ROC = 103" by (simp add: ROC length_thresholds)
  show "\<forall>col \<in> set ROC. length col = 2" by (auto simp: ROC roc_column_def)
  show "length (TPs stats) = 100" by (simp add: st add_stats_def length_thresholds)
  show "drop 100 ROC = [[Some 0, Some 0], [Some 0, Some 0], [Some 0, Some 0]]"
    by (simp add: ROC length_thresholds numeral_3_eq_3)
next
  assume a: "R < length h \<and> h ! R \<noteq> [] \<and> (\<forall>c \<in> set (h ! R). length c = length (h ! R)) \<and>
    (\<forall>c \<in> set (h ! R). \<forall>x \<in> set c. x / Max (set c) \<noteq> sentinel)"
  then have "R < length h" "h ! R \<noteq> []" "\<forall>c \<in> set (h ! R). length c = length (h ! R)"
    "\<forall>c \<in> set (h ! R). \<forall>x \<in> set c. x / Max (set c) \<noteq> sentinel" by blast+
  from get_roc_square[OF this]
  show "\<exists>ROC acu stats h'. get_roc h R = (Inr (ROC, acu, stats), h')" by blast
qed

theorem get_roc_shape_witness:
  "\<exists>ROC acu stats h'. get_roc [[[1, 1 / 2], [1 / 4, 1]]] 0 = (Inr (ROC, acu, stats), h') \<and>
     length ROC = 103 \<and> length (TPs stats) = 100 \<and>
     drop 100 ROC = [[Some 0, Some 0], [Some 0, Some 0], [Some 0, Some 0]]"
proof -
  let ?h = "[[[1, 1 / 2], [1 / 4, 1 :: real]]]"
  have pre: "0 < length ?h \<and> ?h ! 0 \<noteq> [] \<and> (\<forall>c \<in> set (?h ! 0). length c = length (?h ! 0)) \<and>
    (\<forall>c \<in> set (?h ! 0). \<forall>x \<in> set c. x / Max (set c) \<noteq> sentinel)"
    by (simp add: sentinel_def)
  from get_roc_shape[of ?h 0] pre
  obtain ROC acu stats h' where r: "get_roc ?h 0 = (Inr (ROC, acu, stats), h')" by blast
  with get_roc_shape[of ?h 0] have "length ROC = 103 \<and> length (TPs stats) = 100 \<and>
     drop 100 ROC = [[Some 0, Some 0], [Some 0, Some 0], [Some 0, Some 0]]" by blast
  with r show ?thesis by blast
qed

text \<open>
  For a square array of at least two rows, with nonzero column maxima and no
  standardized entry equal to the float64 sentinel \<open>10^16\<close>,
  \<^verbatim>\<open>get_roc\<close> returns; for each of the 100 thresholds the recorded counts and the
  recorded point are those of \<open>roc_point\<close>; and the area under the curve is a number
  between 0 and 1.
\<close>

theorem get_roc_sweep:
  assumes "R < length h"
      and "2 \<le> length (h ! R)"
      and "\<forall>c \<in> set (h ! R). length c = length (h ! R)"
      and "\<forall>c \<in> set (h ! R). Max (set c) \<noteq> 0"
      and "\<forall>c \<in> set (h ! R). \<forall>x \<in> set c. x / Max (set c) \<noteq> sentinel"
  shows "\<exists>ROC acu stats h'.
           get_roc h R = (Inr (ROC, Some acu, stats), h') \<and> 0 \<le> acu \<and> acu \<le> 1 \<and>
           (\<forall>c < 100. roc_point (h ! R) c stats ROC)"
proof -
  let ?S = "col_standardized (h ! R)"
  let ?Ts = "thresholds"
  let ?dg = "np_diag ?S"
  let ?off = "offdiag_entries ?S"
  let ?ROC = "roc_curve ?S"
  let ?st = "add_stats ?dg ?off ?Ts \<lparr>TPs = [], FNs = [], TNs = [], FPs = []\<rparr>"
  from assms(2) have ne: "h ! R \<noteq> []" by auto
  have Sne: "?S \<noteq> []" using ne by (simp add: col_standardized_def)
  have Ssq: "\<forall>c \<in> set ?S. length c = length ?S"
    using assms(3) by (simp add: col_standardized_shape)
  have Slen: "length ?S = length (h ! R)" by (simp add: col_standardized_shape)
  have dg: "?dg = map (\<lambda>i. ?S ! i ! i) [0 ..< length ?S]"
    by (rule np_diag_square[OF Sne Ssq])
  have dg_len: "length ?dg = length ?S" by (simp add: dg)
  have dg_ne: "?dg \<noteq> []" using Sne dg_len by (metis length_0_conv)
  have off_ne: "?off \<noteq> []"
    by (rule offdiag_nonempty) (use assms(2) Slen Ssq in simp_all)
  obtain a where a: "map_option abs (trapz (map (\<lambda>col. col ! 1) ?ROC) (map (\<lambda>col. col ! 0) ?ROC)) = Some a"
    and a01: "0 \<le> a" "a \<le> 1"
    using roc_area_unit[OF dg_ne off_ne] by blast
  have r: "get_roc h R = (Inr (?ROC, Some a, ?st),
      h @ [?S, fill_diagonal ?S sentinel, drop_diag ?S])"
    using get_roc_square[OF assms(1) ne assms(3) assms(5)] unfolding a .
  have pts: "\<forall>c < 100. roc_point (h ! R) c ?st ?ROC"
  proof (intro allI impI)
    fix c :: nat assume c: "c < 100"
    then have cl: "c < length ?Ts" by (simp add: length_thresholds)
    define T where "T = ?Ts ! c"
    have Teq: "- 0.01 + real c * (1.02 / 99) = T"
      unfolding T_def using thresholds_nth[OF c] by simp
    have tp: "count_true (\<lambda>x. x > T) ?dg = count_true (\<lambda>i. ?S ! i ! i > T) [0 ..< length ?S]"
      unfolding dg by (rule count_true_map)
    have col: "?ROC ! c = [Some (fpr_at ?off T), Some (tpr_at ?dg T)]"
      using cl roc_column_finite[OF dg_ne off_ne, of T]
      by (simp add: roc_curve_def nth_append T_def)
    have st: "TPs ?st ! c = count_true (\<lambda>x. x > T) ?dg"
      "FNs ?st ! c = length ?dg - count_true (\<lambda>x. x > T) ?dg"
      "TNs ?st ! c = count_true (\<lambda>x. x \<le> T) ?off"
      "FPs ?st ! c = count_true (\<lambda>x. x \<ge> T) ?off"
      unfolding T_def by (rule add_stats_nth[OF cl])+
    show "roc_point (h ! R) c ?st ?ROC"
      unfolding roc_point_def Let_def Teq st col fpr_at_def tpr_at_def tp dg_len
      by simp
  qed
  show ?thesis
    using r a01 pts by blast
qed

theorem get_roc_sweep_example:
  "\<exists>ROC acu stats h'. get_roc [[[1, 1 / 2], [1 / 4, 1]]] 0 = (Inr (ROC, Some acu, stats), h') \<and>
     0 \<le> acu \<and> acu \<le> 1 \<and>
     TPs stats ! 0 = 2 \<and> FNs stats ! 0 = 0 \<and> TNs stats ! 0 = 0 \<and> FPs stats ! 0 = 2 \<and>
     ROC ! 0 = [Some 1, Some 1]"
proof -
  let ?h = "[[[1, 1 / 2], [1 / 4, 1 :: real]]]"
  have 1: "0 < length ?h" by simp
  have 2: "2 \<le> length (?h ! 0)" by simp
  have 3: "\<forall>c \<in> set (?h ! 0). length c = length (?h ! 0)" by simp
  have 4: "\<forall>c \<in> set (?h ! 0). Max (set c) \<noteq> 0" by simp
  have 5: "\<forall>c \<in> set (?h ! 0). \<forall>x \<in> set c. x / Max (set c) \<noteq> sentinel"
    by (simp add: sentinel_def)
  from get_roc_sweep[OF 1 2 3 4 5]
  obtain ROC acu stats h' where r: "get_roc ?h 0 = (Inr (ROC, Some acu, stats), h')"
    and a: "0 \<le> acu" "acu \<le> 1"
    and p: "\<forall>c < 100. roc_point (?h ! 0) c stats ROC"
    by (elim exE conjE) (rule that)
  have S: "col_standardized (?h ! 0) = [[1, 1 / 2], [1 / 4, 1]]"
    by (simp add: col_standardized_def)
  have off: "offdiag_entries [[1, 1 / 2], [1 / 4, 1 :: real]] = [1 / 2, 1 / 4]"
    by (simp add: offdiag_entries_def)
  have "(0::nat) < 100" by simp
  from p[rule_format, OF this]
  have "TPs stats ! 0 = 2 \<and> FNs stats ! 0 = 0 \<and> TNs stats ! 0 = 0 \<and> FPs stats ! 0 = 2 \<and>
     ROC ! 0 = [Some 1, Some 1]"
    unfolding roc_point_def Let_def S off by (simp add: count_true_def)
  with r a show ?thesis by blast
qed

lemma trapz_None: "None \<in> set x \<Longrightarrow> trapz y x = None"
  by (simp add: trapz_def)

text \<open>
  Claim C2 says that for every square array with nonzero column maxima \<^verbatim>\<open>get_roc\<close>
  returns an area under the curve between 0 and 1, as the docstring of \<^verbatim>\<open>get_roc\<close> does.
  On the one by one array \<open>(5)\<close> the column maximum is 5, there is no off-diagonal
  entry, the false positive rate is \<open>0 / 0\<close> at every threshold, and the area
  \<^verbatim>\<open>get_roc\<close> returns is not a number.
\<close>

theorem get_roc_area_nan:
  "length [[5 :: real]] = 1 \<and> Max (set [5 :: real]) \<noteq> 0 \<and>
   \<not> isl (fst (get_roc [[[5]]] 0)) \<and>
   fst (snd (projr (fst (get_roc [[[5]]] 0)))) = None"
proof -
  let ?h = "[[[5 :: real]]]"
  let ?S = "col_standardized (?h ! 0)"
  have r: "get_roc ?h 0 =
     (Inr (roc_curve ?S,
           map_option abs (trapz (map (\<lambda>col. col ! 1) (roc_curve ?S)) (map (\<lambda>col. col ! 0) (roc_curve ?S))),
           add_stats (np_diag ?S) (offdiag_entries ?S) thresholds \<lparr>TPs = [], FNs = [], TNs = [], FPs = []\<rparr>),
      ?h @ [?S, fill_diagonal ?S sentinel, drop_diag ?S])"
    by (rule get_roc_square) (simp_all add: sentinel_def)
  have off: "offdiag_entries ?S = []"
    by (simp add: offdiag_entries_def col_standardized_def)
  obtain T Ts where ts: "thresholds = T # Ts"
    using length_thresholds by (cases thresholds) auto
  have "roc_column (np_diag ?S) [] T ! 0 = None"
    by (simp add: roc_column_def true_divide_def count_true_def)
  then have "None \<in> set (map (\<lambda>col. col ! 0) (roc_curve ?S))"
    unfolding roc_curve_def off ts by simp
  then have "trapz (map (\<lambda>col. col ! 1) (roc_curve ?S)) (map (\<lambda>col. col ! 0) (roc_curve ?S)) = None"
    by (rule trapz_None)
  with r show ?thesis by simp
qed

text \<open>
  With the float64 sentinel among the standardized off-diagonal entries \<^verbatim>\<open>get_roc\<close>
  returns nothing: \<^verbatim>\<open>remove_diagonal\<close> raises ValueError.
\<close>

lemma get_roc_sentinel_ValueError:
  "fst (get_roc [[[- 1, - 10000000000000000], [2, 3]]] 0) = Inl ValueError"
  by (simp add: get_roc_def standardize_columns_def np_copy_def standardize_body_def upt_rec
      remove_diagonal_def fill_diagonal_def sentinel_def reshape_def shape0_def shape1_def np_diag_def)

section \<open>Properties of get_average_cross_talk_map and get_center_of_gravity_error\<close>

text \<open>
  Claim C3 says that \<^verbatim>\<open>get_average_cross_talk_map(R)\<close> returns the medians of the rows of
  the row-standardized matrix. The code never gets there: its first statement calls
  \<^verbatim>\<open>standardize_rows\<close>, a name the module neither defines nor imports, so every call
  raises NameError and leaves the store as it was.
\<close>

theorem get_average_cross_talk_map_NameError:
  "get_average_cross_talk_map h R = (Inl NameError, h)"
  by (simp add: get_average_cross_talk_map_def lookup_global_def module_globals_def)

lemma cross_talk_example:
  "get_average_cross_talk_map [[[1, 2], [3, 4]]] 0 = (Inl NameError, [[[1, 2], [3, 4]]])"
  by (simp add: get_average_cross_talk_map_def lookup_global_def module_globals_def)

lemma get_label_center_ok:
  assumes "\<forall>l \<in> set labels. \<forall>v \<in> set (vertices l). v < length (rr (hemi_space src l))"
  shows "get_label_center labels src = Inr (map (label_centroid src) labels)"
  using assms
proof (induction labels)
  case Nil
  then show ?case by simp
next
  case (Cons l ls)
  have tl: "get_label_center ls src = Inr (map (label_centroid src) ls)"
    using Cons by simp
  have inr: "\<forall>v \<in> set (vertices l). v < length (rr (hemi_space src l))"
    using Cons.prems by simp
  show ?case
  proof (cases "hemi l")
    case Lh
    with inr have "take_points (rr (fst src)) (vertices l) = Inr (map (\<lambda>v. rr (fst src) ! v) (vertices l))"
      by (simp add: take_points_def hemi_space_def)
    with Lh tl show ?thesis by (simp add: label_centroid_def hemi_space_def)
  next
    case Rh
    with inr have "take_points (rr (snd src)) (vertices l) = Inr (map (\<lambda>v. rr (snd src) ! v) (vertices l))"
      by (simp add: take_points_def hemi_space_def)
    with Rh tl show ?thesis by (simp add: label_centroid_def hemi_space_def)
  qed
qed

lemma argmin_from_spec:
  assumes "j = length pre" and "best < j" and "v = (pre @ xs) ! best"
      and "\<forall>i < j. v \<le> (pre @ xs) ! i" and "\<forall>i < best. v < (pre @ xs) ! i"
  shows "argmin_from best v j xs < length (pre @ xs) \<and>
         (\<forall>i < length (pre @ xs). (pre @ xs) ! argmin_from best v j xs \<le> (pre @ xs) ! i) \<and>
         (\<forall>i < argmin_from best v j xs. (pre @ xs) ! argmin_from best v j xs < (pre @ xs) ! i)"
  using assms
proof (induction xs arbitrary: pre best v j)
  case Nil
  then show ?case by simp
next
  case (Cons x xs)
  let ?pre' = "pre @ [x]"
  have app: "?pre' @ xs = pre @ x # xs" by simp
  have xj: "(pre @ x # xs) ! j = x" using Cons.prems(1) by simp
  show ?case
  proof (cases "x < v")
    case True
    have "argmin_from j x (Suc j) xs < length (?pre' @ xs) \<and>
         (\<forall>i < length (?pre' @ xs). (?pre' @ xs) ! argmin_from j x (Suc j) xs \<le> (?pre' @ xs) ! i) \<and>
         (\<forall>i < argmin_from j x (Suc j) xs. (?pre' @ xs) ! argmin_from j x (Suc j) xs < (?pre' @ xs) ! i)"
    proof (rule Cons.IH)
      show "Suc j = length ?pre'" using Cons.prems(1) by simp
      show "j < Suc j" by simp
      show "x = (?pre' @ xs) ! j" unfolding app using xj by simp
      show "\<forall>i < Suc j. x \<le> (?pre' @ xs) ! i"
        unfolding app using Cons.prems(4) True xj by (auto simp: less_Suc_eq)
      show "\<forall>i < j. x < (?pre' @ xs) ! i"
        unfolding app using Cons.prems(4) True by force
    qed
    with True show ?thesis unfolding app by simp
  next
    case False
    have "argmin_from best v (Suc j) xs < length (?pre' @ xs) \<and>
         (\<forall>i < length (?pre' @ xs). (?pre' @ xs) ! argmin_from best v (Suc j) xs \<le> (?pre' @ xs) ! i) \<and>
         (\<forall>i < argmin_from best v (Suc j) xs. (?pre' @ xs) ! argmin_from best v (Suc j) xs < (?pre' @ xs) ! i)"
    proof (rule Cons.IH)
      show "Suc j = length ?pre'" using Cons.prems(1) by simp
      show "best < Suc j" using Cons.prems(2) by simp
      show "v = (?pre' @ xs) ! best" unfolding app using Cons.prems(3) .
      show "\<forall>i < Suc j. v \<le> (?pre' @ xs) ! i"
        unfolding app using Cons.prems(4) False xj by (auto simp: less_Suc_eq)
      show "\<forall>i < best. v < (?pre' @ xs) ! i"
        unfolding app using Cons.prems(5) .
    qed
    with False show ?thesis unfolding app by simp
  qed
qed

lemma np_argmin_spec:
  assumes "xs \<noteq> []"
  shows "\<exists>k. np_argmin xs = Inr k \<and> k < length xs \<and>
           (\<forall>i < length xs. xs ! k \<le> xs ! i) \<and> (\<forall>i < k. xs ! k < xs ! i)"
proof -
  from assms obtain x ys where xs: "xs = x # ys" by (cases xs) auto
  have "argmin_from 0 x 1 ys < length ([x] @ ys) \<and>
         (\<forall>i < length ([x] @ ys). ([x] @ ys) ! argmin_from 0 x 1 ys \<le> ([x] @ ys) ! i) \<and>
         (\<forall>i < argmin_from 0 x 1 ys. ([x] @ ys) ! argmin_from 0 x 1 ys < ([x] @ ys) ! i)"
    by (rule argmin_from_spec) simp_all
  then show ?thesis by (simp add: xs np_argmin_def)
qed

lemma coge_body_ok:
  assumes "length col = length lc" and "c < length lc" and "length lc = n"
  shows "\<exists>k. coge_body lc n (c, col) =
               Inr (vec_norm (vec_sub (lc ! c) (weighted_center col lc)), weighted_center col lc, k) \<and>
             k < length lc \<and>
             (\<forall>j < length lc. vec_norm (vec_sub (weighted_center col lc) (lc ! k))
                               \<le> vec_norm (vec_sub (weighted_center col lc) (lc ! j))) \<and>
             (\<forall>j < k. vec_norm (vec_sub (weighted_center col lc) (lc ! k))
                        < vec_norm (vec_sub (weighted_center col lc) (lc ! j)))"
proof -
  let ?cog = "weighted_center col lc"
  let ?ds = "map (\<lambda>p. vec_norm (vec_sub ?cog p)) lc"
  have ne: "?ds \<noteq> []" using assms(2) by auto
  from np_argmin_spec[OF ne] obtain k where k: "np_argmin ?ds = Inr k" "k < length ?ds"
    and kmin: "\<forall>i < length ?ds. ?ds ! k \<le> ?ds ! i" and kfirst: "\<forall>i < k. ?ds ! k < ?ds ! i"
    by blast
  have dot: "np_dot col lc = Inr (vec_sum (map2 vec_scale col lc))"
    using assms(1) by (simp add: np_dot_def)
  have body: "coge_body lc n (c, col) = Inr (vec_norm (vec_sub (lc ! c) ?cog), ?cog, k)"
    using assms(2,3) k(1) by (simp add: coge_body_def dot Let_def weighted_center_def)
  have kl: "k < length lc" using k(2) by simp
  have m1: "\<forall>j < length lc. vec_norm (vec_sub ?cog (lc ! k)) \<le> vec_norm (vec_sub ?cog (lc ! j))"
    using kmin kl by simp
  have m2: "\<forall>j < k. vec_norm (vec_sub ?cog (lc ! k)) < vec_norm (vec_sub ?cog (lc ! j))"
    using kfirst kl by simp
  from body kl m1 m2 show ?thesis by blast
qed

lemma coge_loop_ok:
  assumes "\<forall>ccol \<in> set items. \<not> isl (coge_body lc n ccol)"
  shows "coge_loop lc n items (es, gs, ks) =
           Inr (es @ map (\<lambda>x. fst (projr (coge_body lc n x))) items,
                gs @ map (\<lambda>x. fst (snd (projr (coge_body lc n x)))) items,
                ks @ map (\<lambda>x. snd (snd (projr (coge_body lc n x)))) items)"
  using assms
proof (induction items arbitrary: es gs ks)
  case Nil
  then show ?case by simp
next
  case (Cons x items)
  from Cons.prems obtain r where r: "coge_body lc n x = Inr r"
    by (cases "coge_body lc n x") auto
  have "coge_loop lc n (x # items) (es, gs, ks) =
        coge_loop lc n items (es @ [fst r], gs @ [fst (snd r)], ks @ [snd (snd r)])"
    by (simp add: r)
  also have "\<dots> = Inr ((es @ [fst r]) @ map (\<lambda>x. fst (projr (coge_body lc n x))) items,
                (gs @ [fst (snd r)]) @ map (\<lambda>x. fst (snd (projr (coge_body lc n x)))) items,
                (ks @ [snd (snd r)]) @ map (\<lambda>x. snd (snd (projr (coge_body lc n x)))) items)"
    by (rule Cons.IH) (use Cons.prems in simp)
  finally show ?case by (simp add: r)
qed

text \<open>
  Claim C7. For labels whose vertices exist in their hemisphere's source space (and are
  at least one), and an array \<open>R\<close> with one column and one row per label whose column
  sums are nonzero, \<^verbatim>\<open>get_center_of_gravity_error\<close> returns three lists with one entry
  per column \<open>c\<close>: the weighted center of gravity
  \<open>(R[:, c] dot label_center) / sum(R[:, c])\<close>; 100 times its Euclidean distance to the
  center of gravity of the vertex positions of label \<open>c\<close>; and the index of a label
  center nearest to the weighted center of gravity.
\<close>

theorem get_center_of_gravity_error_spec:
  assumes "length R = length labels"
      and "\<forall>col \<in> set R. length col = length labels"
      and "\<forall>col \<in> set R. sum_list col \<noteq> 0"
      and "\<forall>l \<in> set labels. vertices l \<noteq> [] \<and>
             (\<forall>v \<in> set (vertices l). v < length (rr (hemi_space src l)))"
  shows "\<exists>coge cogs closest.
           get_center_of_gravity_error R src labels = Inr (coge, cogs, closest) \<and>
           length coge = length R \<and> length cogs = length R \<and> length closest = length R \<and>
           (\<forall>c < length R.
              cogs ! c = weighted_center (R ! c) (map (label_centroid src) labels) \<and>
              coge ! c = 100 * vec_norm (vec_sub (label_centroid src (labels ! c)) (cogs ! c)) \<and>
              closest ! c < length labels \<and>
              (\<forall>j < length labels.
                 vec_norm (vec_sub (cogs ! c) (label_centroid src (labels ! (closest ! c))))
                   \<le> vec_norm (vec_sub (cogs ! c) (label_centroid src (labels ! j)))))"
proof -
  let ?lc = "map (label_centroid src) labels"
  let ?n = "length labels"
  let ?items = "enumerate 0 R"
  let ?b = "\<lambda>x. projr (coge_body ?lc ?n x)"
  have lc: "get_label_center labels src = Inr ?lc"
    by (rule get_label_center_ok) (use assms(4) in simp)
  have item: "\<And>c. c < length R \<Longrightarrow> ?items ! c = (c, R ! c)"
    by (simp add: nth_enumerate_eq)
  have body: "\<exists>k. coge_body ?lc ?n (c, R ! c) =
               Inr (vec_norm (vec_sub (?lc ! c) (weighted_center (R ! c) ?lc)), weighted_center (R ! c) ?lc, k) \<and>
             k < length ?lc \<and>
             (\<forall>j < length ?lc. vec_norm (vec_sub (weighted_center (R ! c) ?lc) (?lc ! k))
                               \<le> vec_norm (vec_sub (weighted_center (R ! c) ?lc) (?lc ! j))) \<and>
             (\<forall>j < k. vec_norm (vec_sub (weighted_center (R ! c) ?lc) (?lc ! k))
                        < vec_norm (vec_sub (weighted_center (R ! c) ?lc) (?lc ! j)))"
    if c: "c < length R" for c
  proof (rule coge_body_ok)
    from c have "R ! c \<in> set R" by simp
    then show "length (R ! c) = length ?lc" using assms(2) by simp
    show "c < length ?lc" using c assms(1) by simp
    show "length ?lc = ?n" by simp
  qed
  have all_ok: "\<forall>ccol \<in> set ?items. \<not> isl (coge_body ?lc ?n ccol)"
  proof
    fix ccol assume "ccol \<in> set ?items"
    then obtain c where c: "c < length R" and cc: "ccol = (c, R ! c)"
      by (auto simp: in_set_conv_nth nth_enumerate_eq)
    from body[OF c] cc show "\<not> isl (coge_body ?lc ?n ccol)" by auto
  qed
  have loop: "coge_loop ?lc ?n ?items ([], [], []) =
      Inr ([] @ map (\<lambda>x. fst (?b x)) ?items, [] @ map (\<lambda>x. fst (snd (?b x))) ?items,
           [] @ map (\<lambda>x. snd (snd (?b x))) ?items)"
    by (rule coge_loop_ok[OF all_ok])
  let ?coge = "map (\<lambda>e. 100 * e) (map (\<lambda>x. fst (?b x)) ?items)"
  let ?cogs = "map (\<lambda>x. fst (snd (?b x))) ?items"
  let ?closest = "map (\<lambda>x. snd (snd (?b x))) ?items"
  have res: "get_center_of_gravity_error R src labels = Inr (?coge, ?cogs, ?closest)"
    by (simp add: get_center_of_gravity_error_def lc loop)
  have pts: "\<forall>c < length R.
              ?cogs ! c = weighted_center (R ! c) ?lc \<and>
              ?coge ! c = 100 * vec_norm (vec_sub (label_centroid src (labels ! c)) (?cogs ! c)) \<and>
              ?closest ! c < length labels \<and>
              (\<forall>j < length labels.
                 vec_norm (vec_sub (?cogs ! c) (label_centroid src (labels ! (?closest ! c))))
                   \<le> vec_norm (vec_sub (?cogs ! c) (label_centroid src (labels ! j))))"
  proof (intro allI impI)
    fix c assume c: "c < length R"
    from body[OF c] obtain k where
      b: "coge_body ?lc ?n (c, R ! c) =
            Inr (vec_norm (vec_sub (?lc ! c) (weighted_center (R ! c) ?lc)), weighted_center (R ! c) ?lc, k)"
      and k: "k < length ?lc"
      and kmin: "\<forall>j < length ?lc. vec_norm (vec_sub (weighted_center (R ! c) ?lc) (?lc ! k))
                               \<le> vec_norm (vec_sub (weighted_center (R ! c) ?lc) (?lc ! j))"
      by blast
    have cl: "c < length labels" using c assms(1) by simp
    have g: "?cogs ! c = weighted_center (R ! c) ?lc"
      using c by (simp add: item b)
    have e: "?coge ! c = 100 * vec_norm (vec_sub (?lc ! c) (weighted_center (R ! c) ?lc))"
      using c by (simp add: item b)
    have kk: "?closest ! c = k"
      using c by (simp add: item b)
    have kmin': "\<forall>j < length labels.
                 vec_norm (vec_sub (weighted_center (R ! c) ?lc) (label_centroid src (labels ! k)))
                   \<le> vec_norm (vec_sub (weighted_center (R ! c) ?lc) (label_centroid src (labels ! j)))"
      using kmin k by simp
    show "?cogs ! c = weighted_center (R ! c) ?lc \<and>
              ?coge ! c = 100 * vec_norm (vec_sub (label_centroid src (labels ! c)) (?cogs ! c)) \<and>
              ?closest ! c < length labels \<and>
              (\<forall>j < length labels.
                 vec_norm (vec_sub (?cogs ! c) (label_centroid src (labels ! (?closest ! c))))
                   \<le> vec_norm (vec_sub (?cogs ! c) (label_centroid src (labels ! j))))"
      unfolding g e kk using k kmin' cl by simp
  qed
  have lens: "length ?coge = length R" "length ?cogs = length R" "length ?closest = length R"
    by simp_all
  from res lens pts show ?thesis by blast
qed

theorem get_center_of_gravity_error_spec_witness:
  "\<exists>coge cogs closest.
     get_center_of_gravity_error [[1, 0], [0, 1]]
       (\<lparr>rr = [(0, 0, 0), (2, 0, 0)]\<rparr>, \<lparr>rr = [(0, 4, 0)]\<rparr>)
       [\<lparr>name = ''a-lh'', hemi = Lh, vertices = [0, 1]\<rparr>, \<lparr>name = ''b-rh'', hemi = Rh, vertices = [0]\<rparr>] = Inr (coge, cogs, closest) \<and>
     length coge = 2 \<and> cogs ! 0 = (1, 0, 0) \<and> cogs ! 1 = (0, 4, 0) \<and>
     coge ! 0 = 0 \<and> coge ! 1 = 0 \<and> closest ! 0 < 2 \<and> closest ! 1 < 2"
proof -
  let ?R = "[[1, 0], [0, 1 :: real]]"
  let ?src = "(\<lparr>rr = [(0, 0, 0), (2, 0, 0)]\<rparr>, \<lparr>rr = [(0, 4, 0)]\<rparr>) :: source_space \<times> source_space"
  let ?labels = "[\<lparr>name = ''a-lh'', hemi = Lh, vertices = [0, 1]\<rparr>, \<lparr>name = ''b-rh'', hemi = Rh, vertices = [0]\<rparr>]"
  have 1: "length ?R = length ?labels" by simp
  have 2: "\<forall>col \<in> set ?R. length col = length ?labels" by simp
  have 3: "\<forall>col \<in> set ?R. sum_list col \<noteq> 0" by simp
  have 4: "\<forall>l \<in> set ?labels. vertices l \<noteq> [] \<and>
             (\<forall>v \<in> set (vertices l). v < length (rr (hemi_space ?src l)))"
    by (simp add: hemi_space_def)
  from get_center_of_gravity_error_spec[OF 1 2 3 4]
  obtain coge cogs closest where
    r: "get_center_of_gravity_error ?R ?src ?labels = Inr (coge, cogs, closest)"
    and l: "length coge = length ?R"
    and p: "\<forall>c < length ?R.
              cogs ! c = weighted_center (?R ! c) (map (label_centroid ?src) ?labels) \<and>
              coge ! c = 100 * vec_norm (vec_sub (label_centroid ?src (?labels ! c)) (cogs ! c)) \<and>
              closest ! c < length ?labels \<and>
              (\<forall>j < length ?labels.
                 vec_norm (vec_sub (cogs ! c) (label_centroid ?src (?labels ! (closest ! c))))
                   \<le> vec_norm (vec_sub (cogs ! c) (label_centroid ?src (?labels ! j))))"
    by (elim exE conjE) (rule that)
  have c0: "label_centroid ?src (?labels ! 0) = (1, 0, 0)"
    by (simp add: label_centroid_def hemi_space_def np_mean_axis0_def vec_sum_def vec_add_def vec_div_def)
  have c1: "label_centroid ?src (?labels ! 1) = (0, 4, 0)"
    by (simp add: label_centroid_def hemi_space_def np_mean_axis0_def vec_sum_def vec_add_def vec_div_def)
  have cs: "map (label_centroid ?src) ?labels = [(1, 0, 0), (0, 4, 0)]"
    using c0 c1 by simp
  have w0: "weighted_center (?R ! 0) [(1, 0, 0), (0, 4, 0)] = (1, 0, 0)"
    by (simp add: weighted_center_def vec_sum_def vec_add_def vec_div_def vec_scale_def)
  have w1: "weighted_center (?R ! 1) [(1, 0, 0), (0, 4, 0)] = (0, 4, 0)"
    by (simp add: weighted_center_def vec_sum_def vec_add_def vec_div_def vec_scale_def)
  have i0: "(0::nat) < length ?R" and i1: "(1::nat) < length ?R" by simp_all
  from p[rule_format, OF i0] have g0: "cogs ! 0 = (1, 0, 0)" and k0: "closest ! 0 < 2"
    and e0: "coge ! 0 = 100 * vec_norm (vec_sub (label_centroid ?src (?labels ! 0)) (cogs ! 0))"
    unfolding cs w0 by simp_all
  from p[rule_format, OF i1] have g1: "cogs ! 1 = (0, 4, 0)" and k1: "closest ! 1 < 2"
    and e1: "coge ! 1 = 100 * vec_norm (vec_sub (label_centroid ?src (?labels ! 1)) (cogs ! 1))"
    unfolding cs w1 by simp_all
  have z0: "coge ! 0 = 0" unfolding e0 c0 g0 by (simp add: vec_sub_def vec_norm_def)
  have z1: "coge ! 1 = 0" unfolding e1 c1 g1 by (simp add: vec_sub_def vec_norm_def)
  from r l g0 g1 z0 z1 k0 k1 show ?thesis by simp
qed

section \<open>Properties of get_R\<close>

lemma ebind_Inr: "ebind m f = Inr y \<longleftrightarrow> (\<exists>x. m = Inr x \<and> f x = Inr y)"
  by (cases m) (simp_all add: ebind_def)

lemma sensor_data_Inr:
  "sensor_data s signal noise lam = Inr (sens, lam') \<longleftrightarrow>
     (if s = PInf then sens = map (map Fin) signal \<and> lam' = Some (1 / 9)
      else scaled_signal_plus_noise s signal noise = Inr sens \<and> lam' = lam)"
  by (auto simp: sensor_data_def scaled_signal_plus_noise_def ebind_Inr)

lemma get_R_body_calls:
  assumes "get_R_body ctx l lam = (r, calls)"
  shows "calls = [] \<or> (\<exists>ev. calls = [estimator_call ctx ev])"
proof (cases "ebind (patch_signal (c_fwd ctx) (c_label_verts ctx) (c_waveform ctx) (c_goodies ctx) l)
             (\<lambda>signal. sensor_data (c_scaling ctx) signal (c_noise ctx) lam)")
  case (Inl e)
  with assms show ?thesis by (simp add: get_R_body_def)
next
  case (Inr sl)
  with assms show ?thesis
    by (auto simp: get_R_body_def Let_def estimator_call_def split: if_splits)
qed

lemma get_R_body_Inr:
  assumes "get_R_body ctx l lam = (Inr (cols, lam'), calls)"
  shows "\<exists>signal sens.
           patch_signal (c_fwd ctx) (c_label_verts ctx) (c_waveform ctx) (c_goodies ctx) l = Inr signal \<and>
           sensor_data (c_scaling ctx) signal (c_noise ctx) lam = Inr (sens, lam') \<and>
           calls = [estimator_call ctx (evoked_mod (c_n_channels ctx) (c_goodies ctx) sens)]"
proof (cases "ebind (patch_signal (c_fwd ctx) (c_label_verts ctx) (c_waveform ctx) (c_goodies ctx) l)
             (\<lambda>signal. sensor_data (c_scaling ctx) signal (c_noise ctx) lam)")
  case (Inl e)
  with assms show ?thesis by (simp add: get_R_body_def)
next
  case (Inr sl)
  then obtain signal where
    sg: "patch_signal (c_fwd ctx) (c_label_verts ctx) (c_waveform ctx) (c_goodies ctx) l = Inr signal"
    and sd: "sensor_data (c_scaling ctx) signal (c_noise ctx) lam = Inr sl"
    by (auto simp: ebind_Inr)
  from assms Inr have "snd sl = lam'"
    and "calls = [estimator_call ctx (evoked_mod (c_n_channels ctx) (c_goodies ctx) (fst sl))]"
    by (auto simp: get_R_body_def Let_def estimator_call_def ebind_Inr split: if_splits)
  with sg sd show ?thesis by (cases sl) auto
qed

lemma get_R_loop_calls:
  assumes "get_R_loop ctx ls acc = (r, calls)"
  shows "\<forall>c \<in> set calls. \<exists>ev. c = estimator_call ctx ev"
  using assms
proof (induction ls arbitrary: acc r calls)
  case Nil
  then show ?case by simp
next
  case (Cons l ls)
  obtain rb cb where b: "get_R_body ctx l (snd (snd acc)) = (rb, cb)"
    by (cases "get_R_body ctx l (snd (snd acc))")
  have cb: "\<forall>c \<in> set cb. \<exists>ev. c = estimator_call ctx ev"
    using get_R_body_calls[OF b] by auto
  show ?case
  proof (cases rb)
    case (Inl e)
    with Cons.prems b have "calls = cb" by simp
    with cb show ?thesis by simp
  next
    case (Inr x)
    obtain r' c' where l: "get_R_loop ctx ls
        (fst acc @ [fst (fst x)], fst (snd acc) @ [snd (fst x)], snd x) = (r', c')"
      by (cases "get_R_loop ctx ls (fst acc @ [fst (fst x)], fst (snd acc) @ [snd (fst x)], snd x)")
    from Cons.prems b Inr l have "calls = cb @ c'" by simp
    moreover have "\<forall>c \<in> set c'. \<exists>ev. c = estimator_call ctx ev"
      by (rule Cons.IH[OF l])
    ultimately show ?thesis using cb by auto
  qed
qed

lemma get_R_loop_Inr:
  assumes "get_R_loop ctx ls acc = (Inr acc', calls)"
  shows "length calls = length ls \<and>
         length (fst acc') = length (fst acc) + length ls \<and>
         length (fst (snd acc')) = length (fst (snd acc)) + length ls \<and>
         snd (snd acc') = (if ls \<noteq> [] \<and> c_scaling ctx = PInf then Some (1 / 9) else snd (snd acc)) \<and>
         (\<forall>i < length ls. \<exists>sens. sens_for ctx (ls ! i) sens \<and>
            calls ! i = estimator_call ctx (evoked_mod (c_n_channels ctx) (c_goodies ctx) sens))"
  using assms
proof (induction ls arbitrary: acc acc' calls)
  case Nil
  then show ?case by auto
next
  case (Cons l ls)
  obtain rb cb where b: "get_R_body ctx l (snd (snd acc)) = (rb, cb)"
    by (cases "get_R_body ctx l (snd (snd acc))")
  show ?case
  proof (cases rb)
    case (Inl e)
    with Cons.prems b show ?thesis by simp
  next
    case (Inr x)
    obtain cols lam' where x: "x = (cols, lam')" by (cases x)
    let ?acc1 = "(fst acc @ [fst cols], fst (snd acc) @ [snd cols], lam')"
    obtain r' c' where l: "get_R_loop ctx ls ?acc1 = (r', c')"
      by (cases "get_R_loop ctx ls ?acc1")
    from Cons.prems b Inr x l have r': "r' = Inr acc'" and calls: "calls = cb @ c'"
      by simp_all
    from get_R_body_Inr[OF b[unfolded Inr x]] obtain signal sens where
      sg: "patch_signal (c_fwd ctx) (c_label_verts ctx) (c_waveform ctx) (c_goodies ctx) l = Inr signal"
      and sd: "sensor_data (c_scaling ctx) signal (c_noise ctx) (snd (snd acc)) = Inr (sens, lam')"
      and cb: "cb = [estimator_call ctx (evoked_mod (c_n_channels ctx) (c_goodies ctx) sens)]"
      by blast
    have sf: "sens_for ctx l sens"
      using sg sd unfolding sens_for_def sensor_data_Inr by (auto split: if_splits)
    have lam': "lam' = (if c_scaling ctx = PInf then Some (1 / 9) else snd (snd acc))"
      using sd unfolding sensor_data_Inr by (auto split: if_splits)
    have ih: "length c' = length ls \<and>
         length (fst acc') = length (fst ?acc1) + length ls \<and>
         length (fst (snd acc')) = length (fst (snd ?acc1)) + length ls \<and>
         snd (snd acc') = (if ls \<noteq> [] \<and> c_scaling ctx = PInf then Some (1 / 9) else snd (snd ?acc1)) \<and>
         (\<forall>i < length ls. \<exists>sens. sens_for ctx (ls ! i) sens \<and>
            c' ! i = estimator_call ctx (evoked_mod (c_n_channels ctx) (c_goodies ctx) sens))"
      by (rule Cons.IH) (use l r' in simp)
    have pts: "\<forall>i < length (l # ls). \<exists>sens. sens_for ctx ((l # ls) ! i) sens \<and>
            calls ! i = estimator_call ctx (evoked_mod (c_n_channels ctx) (c_goodies ctx) sens)"
    proof (intro allI impI)
      fix i assume i: "i < length (l # ls)"
      show "\<exists>sens. sens_for ctx ((l # ls) ! i) sens \<and>
            calls ! i = estimator_call ctx (evoked_mod (c_n_channels ctx) (c_goodies ctx) sens)"
      proof (cases i)
        case 0
        with sf calls cb show ?thesis by auto
      next
        case (Suc j)
        with i have "j < length ls" by simp
        with ih obtain sens' where "sens_for ctx (ls ! j) sens'"
          "c' ! j = estimator_call ctx (evoked_mod (c_n_channels ctx) (c_goodies ctx) sens')"
          by blast
        with Suc calls cb show ?thesis by auto
      qed
    qed
    from ih calls cb lam' pts show ?thesis by auto
  qed
qed

lemma get_R_cases:
  fixes fwd ev est waveform labels invmethod SNR0 acts0 ca
  defines "acts \<equiv> (case acts0 of None \<Rightarrow> labels | Some a \<Rightarrow> a)"
      and "noise0 \<equiv> map (take (length waveform)) (ave_data ev)"
      and "mod_ind \<equiv> [picks_mag ev, picks_grad ev, picks_eeg ev]"
      and "SNR \<equiv> (if ca then PInf else SNR0)"
      and "op \<equiv> (if invmethod \<in> set [''MNE'', ''dSPM'', ''eLORETA'', ''sLORETA'']
                   then Some Minimum_norm_operator else None)"
      and "calls0 \<equiv> (if invmethod \<in> set [''MNE'', ''dSPM'', ''eLORETA'', ''sLORETA'']
                       then [Make_inverse_operator] else [])"
  assumes run: "get_R fwd ev est waveform labels invmethod SNR0 acts0 ca = (res, calls)"
  shows "(\<exists>e. res = Inl e \<and> calls = []) \<or>
         (\<exists>nps noise.
            emap (noise_power noise0) mod_ind = Inr nps \<and>
            index_goodies noise0 (goodies_of ev) = Inr noise \<and>
            ((\<exists>e. res = Inl e \<and> calls = calls0) \<or>
             (\<exists>s lres lcalls.
                ave_scale fwd (make_label_verts fwd labels) (length waveform) acts mod_ind nps SNR = Inr s \<and>
                get_R_loop (run_ctx fwd ev est waveform labels invmethod SNR0 ca noise s) acts ([], [], None)
                  = (lres, lcalls) \<and>
                (case lres of
                   Inl e \<Rightarrow> res = Inl e \<and> calls = calls0 @ lcalls
                 | Inr acc \<Rightarrow>
                     (if ca then
                        (case snd (snd acc) of
                           None \<Rightarrow> res = Inl NameError \<and> calls = calls0 @ lcalls
                         | Some l2 \<Rightarrow>
                             \<not> isl res \<and>
                             calls = calls0 @ lcalls @ [Prepare_inverse_operator op l2 invmethod])
                      else res = Inr (Empirical (map (map xabs) (fst acc)) (fst (snd acc))) \<and>
                           calls = calls0 @ lcalls)))))"
proof (cases "ebind (emap (noise_power noise0) mod_ind) (\<lambda>noise_powers.
                ebind (index_goodies noise0 (goodies_of ev)) (\<lambda>noise. Inr (noise_powers, noise)))")
  case (Inl e)
  with run have "res = Inl e \<and> calls = []"
    unfolding get_R_def Let_def noise0_def mod_ind_def by auto
  then show ?thesis by blast
next
  case (Inr pn)
  then have nps: "emap (noise_power noise0) mod_ind = Inr (fst pn)"
    and noise: "index_goodies noise0 (goodies_of ev) = Inr (snd pn)"
    by (auto simp: ebind_Inr)
  show ?thesis
  proof (cases "ave_scale fwd (make_label_verts fwd labels) (length waveform) acts mod_ind (fst pn) SNR")
    case (Inl e)
    with run Inr have "res = Inl e \<and> calls = calls0"
      unfolding get_R_def Let_def noise0_def mod_ind_def acts_def SNR_def calls0_def
      by (simp split: if_splits)
    with nps noise show ?thesis by blast
  next
    case s: (Inr s)
    obtain lres lcalls where
      l: "get_R_loop (run_ctx fwd ev est waveform labels invmethod SNR0 ca (snd pn) s) acts ([], [], None)
            = (lres, lcalls)"
      by (cases "get_R_loop (run_ctx fwd ev est waveform labels invmethod SNR0 ca (snd pn) s) acts ([], [], None)")
    have "case lres of
                   Inl e \<Rightarrow> res = Inl e \<and> calls = calls0 @ lcalls
                 | Inr acc \<Rightarrow>
                     (if ca then
                        (case snd (snd acc) of
                           None \<Rightarrow> res = Inl NameError \<and> calls = calls0 @ lcalls
                         | Some l2 \<Rightarrow>
                             \<not> isl res \<and>
                             calls = calls0 @ lcalls @ [Prepare_inverse_operator op l2 invmethod])
                      else res = Inr (Empirical (map (map xabs) (fst acc)) (fst (snd acc))) \<and>
                           calls = calls0 @ lcalls)"
      using run Inr s l
      unfolding get_R_def Let_def noise0_def mod_ind_def acts_def SNR_def calls0_def op_def run_ctx_def
      by (auto split: sum.splits option.splits if_splits)
    with nps noise s l show ?thesis by blast
  qed
qed

lemma get_R_calls_shape:
  fixes fwd ev est waveform labels invmethod SNR0 acts0 ca
  defines "acts \<equiv> (case acts0 of None \<Rightarrow> labels | Some a \<Rightarrow> a)"
      and "SNR \<equiv> (if ca then PInf else SNR0)"
      and "op \<equiv> (if invmethod \<in> set [''MNE'', ''dSPM'', ''eLORETA'', ''sLORETA'']
                   then Some Minimum_norm_operator else None)"
      and "calls0 \<equiv> (if invmethod \<in> set [''MNE'', ''dSPM'', ''eLORETA'', ''sLORETA'']
                       then [Make_inverse_operator] else [])"
  assumes run: "get_R fwd ev est waveform labels invmethod SNR0 acts0 ca = (res, calls)"
  shows "(isl res \<and> calls = []) \<or>
         (\<exists>lcalls tail.
            calls = calls0 @ lcalls @ tail \<and>
            (tail = [] \<or> (\<exists>l2. tail = [Prepare_inverse_operator op l2 invmethod])) \<and>
            (\<forall>c \<in> set lcalls. \<exists>e. c = (if invmethod = ''mixed_norm'' then Mixed_norm e
                                           else Inv_function e SNR invmethod op)) \<and>
            (\<not> isl res \<longrightarrow> length lcalls = length acts))"
proof -
  let ?mod_ind = "[picks_mag ev, picks_grad ev, picks_eeg ev]"
  let ?noise0 = "map (take (length waveform)) (ave_data ev)"
  note cases = get_R_cases[OF run, folded acts_def SNR_def op_def calls0_def]
  show ?thesis
  proof (cases "\<exists>e. res = Inl e \<and> calls = []")
    case True
    then show ?thesis by auto
  next
    case False
    with cases obtain nps noise where
      rest: "(\<exists>e. res = Inl e \<and> calls = calls0) \<or>
             (\<exists>s lres lcalls.
                ave_scale fwd (make_label_verts fwd labels) (length waveform) acts ?mod_ind nps SNR = Inr s \<and>
                get_R_loop (run_ctx fwd ev est waveform labels invmethod SNR0 ca noise s) acts ([], [], None)
                  = (lres, lcalls) \<and>
                (case lres of
                   Inl e \<Rightarrow> res = Inl e \<and> calls = calls0 @ lcalls
                 | Inr acc \<Rightarrow>
                     (if ca then
                        (case snd (snd acc) of
                           None \<Rightarrow> res = Inl NameError \<and> calls = calls0 @ lcalls
                         | Some l2 \<Rightarrow>
                             \<not> isl res \<and>
                             calls = calls0 @ lcalls @ [Prepare_inverse_operator op l2 invmethod])
                      else res = Inr (Empirical (map (map xabs) (fst acc)) (fst (snd acc))) \<and>
                           calls = calls0 @ lcalls)))"
      by blast
    show ?thesis
    proof (cases "\<exists>e. res = Inl e \<and> calls = calls0")
      case True
      then have "calls = calls0 @ [] @ []" "isl res" by auto
      then show ?thesis by (intro disjI2 exI[of _ "[]"]) auto
    next
      case nf: False
      with rest obtain s lres lcalls where
        l: "get_R_loop (run_ctx fwd ev est waveform labels invmethod SNR0 ca noise s) acts ([], [], None)
              = (lres, lcalls)"
        and c: "case lres of
                   Inl e \<Rightarrow> res = Inl e \<and> calls = calls0 @ lcalls
                 | Inr acc \<Rightarrow>
                     (if ca then
                        (case snd (snd acc) of
                           None \<Rightarrow> res = Inl NameError \<and> calls = calls0 @ lcalls
                         | Some l2 \<Rightarrow>
                             \<not> isl res \<and>
                             calls = calls0 @ lcalls @ [Prepare_inverse_operator op l2 invmethod])
                      else res = Inr (Empirical (map (map xabs) (fst acc)) (fst (snd acc))) \<and>
                           calls = calls0 @ lcalls)"
        by blast
      let ?ctx = "run_ctx fwd ev est waveform labels invmethod SNR0 ca noise s"
      have ec: "\<And>e. estimator_call ?ctx e =
          (if invmethod = ''mixed_norm'' then Mixed_norm e else Inv_function e SNR invmethod op)"
        by (simp add: estimator_call_def run_ctx_def SNR_def op_def)
      have each: "\<forall>c \<in> set lcalls. \<exists>e. c = (if invmethod = ''mixed_norm'' then Mixed_norm e
                                           else Inv_function e SNR invmethod op)"
        using get_R_loop_calls[OF l] unfolding ec .
      have shape: "\<exists>tail. calls = calls0 @ lcalls @ tail \<and>
            (tail = [] \<or> (\<exists>l2. tail = [Prepare_inverse_operator op l2 invmethod]))"
        using c by (auto split: sum.splits option.splits if_splits)
      have len: "\<not> isl res \<longrightarrow> length lcalls = length acts"
      proof
        assume r: "\<not> isl res"
        with c obtain acc where acc: "lres = Inr acc"
          by (cases lres) auto
        from get_R_loop_Inr[OF l[unfolded acc]] show "length lcalls = length acts" by simp
      qed
      from shape each len show ?thesis by blast
    qed
  qed
qed

lemmas get_R_simps =
  get_R_def Let_def ex_fwd_def ex_evoked_def ex_label_def ex_est_def
  noise_power_def take_points_def np_mean_def l2norm_def ebind_def index_goodies_def goodies_of_def
  ave_scale_def sign_pow_def signal_power_def make_label_verts_def label_inds_def dict_get_def
  shape0_def get_R_body_def patch_signal_def sensor_data_def scaled_plus_noise_def evoked_mod_def
  inv_columns_def mixed_columns_def assign_column_def assign_at_def

lemma ex_run_inv:
  "get_R ex_fwd ex_evoked ex_est [1] [ex_label] ''mine'' (Fin 2) None False =
     (Inr (Empirical [[Fin 1]] [[Fin 1]]),
      [Inv_function [[Fin 3], [Fin 3], [Fin 3]] (Fin 2) ''mine'' None])"
  by (simp add: get_R_simps)

lemma ex_run_MNE:
  "get_R ex_fwd ex_evoked ex_est [1] [ex_label] ''MNE'' (Fin 2) None False =
     (Inr (Empirical [[Fin 1]] [[Fin 1]]),
      [Make_inverse_operator,
       Inv_function [[Fin 3], [Fin 3], [Fin 3]] (Fin 2) ''MNE'' (Some Minimum_norm_operator)])"
  by (simp add: get_R_simps)

lemma ex_run_mixed:
  "get_R ex_fwd ex_evoked ex_est [1] [ex_label] ''mixed_norm'' (Fin 2) None False =
     (Inr (Empirical [[Fin 1]] [[Fin 1]]),
      [Mixed_norm [[Fin 3], [Fin 3], [Fin 3]]])"
  by (simp add: get_R_simps)

lemma ex_run_inf:
  "get_R ex_fwd ex_evoked ex_est [1] [ex_label] ''mine'' PInf None False =
     (Inr (Empirical [[Fin 1]] [[Fin 1]]),
      [Inv_function [[Fin 1], [Fin 1], [Fin 1]] PInf ''mine'' None])"
  by (simp add: get_R_simps)

lemma ex_run_analytical:
  "get_R ex_fwd ex_evoked ex_est [1] [ex_label] ''MNE'' (Fin 2) None True =
     (Inr (Analytical [[Fin 1]] [] []),
      [Make_inverse_operator,
       Inv_function [[Fin 1], [Fin 1], [Fin 1]] PInf ''MNE'' (Some Minimum_norm_operator),
       Prepare_inverse_operator (Some Minimum_norm_operator) (1 / 9) ''MNE''])"
  by (simp add: get_R_simps)

text \<open>
  Claim C6. In any run of \<^verbatim>\<open>get_R\<close>: a minimum-norm inverse operator is made only
  when \<open>invmethod\<close> is one of \<^verbatim>\<open>'MNE'\<close>, \<^verbatim>\<open>'dSPM'\<close>, \<^verbatim>\<open>'eLORETA'\<close>,
  \<^verbatim>\<open>'sLORETA'\<close>, and then it is the first call of every run that gets past the
  set-up of the noise; with \<^verbatim>\<open>'mixed_norm'\<close> every estimate is one of the mixed-norm
  estimator on the evoked data; with one of the four linear methods every estimate is
  one of \<^verbatim>\<open>inv_function\<close> with the operator made; with any other string every
  estimate is one of \<^verbatim>\<open>inv_function\<close> with \<^verbatim>\<open>inverse_operator\<close> equal to None; and
  a run that returns has made one estimate per activation label.
\<close>

theorem get_R_dispatch:
  assumes run: "get_R fwd ev est waveform labels invmethod SNR0 acts0 ca = (res, calls)"
  shows "(Make_inverse_operator \<in> set calls \<longrightarrow>
            invmethod \<in> set [''MNE'', ''dSPM'', ''eLORETA'', ''sLORETA'']) \<and>
         (invmethod \<in> set [''MNE'', ''dSPM'', ''eLORETA'', ''sLORETA''] \<and> (calls \<noteq> [] \<or> \<not> isl res) \<longrightarrow>
            hd calls = Make_inverse_operator) \<and>
         (invmethod = ''mixed_norm'' \<longrightarrow>
            (\<forall>c \<in> set calls. is_estimate c \<longrightarrow> (\<exists>e. c = Mixed_norm e))) \<and>
         (invmethod \<in> set [''MNE'', ''dSPM'', ''eLORETA'', ''sLORETA''] \<longrightarrow>
            (\<forall>c \<in> set calls. is_estimate c \<longrightarrow>
               (\<exists>e. c = Inv_function e (if ca then PInf else SNR0) invmethod (Some Minimum_norm_operator)))) \<and>
         (invmethod \<notin> set [''MNE'', ''dSPM'', ''eLORETA'', ''sLORETA''] \<and> invmethod \<noteq> ''mixed_norm'' \<longrightarrow>
            (\<forall>c \<in> set calls. is_estimate c \<longrightarrow>
               (\<exists>e. c = Inv_function e (if ca then PInf else SNR0) invmethod None))) \<and>
         (\<not> isl res \<longrightarrow>
            length (filter is_estimate calls) = length (case acts0 of None \<Rightarrow> labels | Some a \<Rightarrow> a))"
proof -
  define lin where "lin \<longleftrightarrow> invmethod \<in> set [''MNE'', ''dSPM'', ''eLORETA'', ''sLORETA'']"
  define op where "op = (if lin then Some Minimum_norm_operator else None)"
  define calls0 where "calls0 = (if lin then [Make_inverse_operator] else [])"
  define SNR where "SNR = (if ca then PInf else SNR0)"
  define acts where "acts = (case acts0 of None \<Rightarrow> labels | Some a \<Rightarrow> a)"
  define mixed where "mixed \<longleftrightarrow> invmethod = ''mixed_norm''"
  have lm: "lin \<Longrightarrow> \<not> mixed" unfolding lin_def mixed_def by auto
  from get_R_calls_shape[OF run]
  consider (early) "isl res" "calls = []"
    | (late) lcalls tail where "calls = calls0 @ lcalls @ tail"
        "tail = [] \<or> (\<exists>l2. tail = [Prepare_inverse_operator op l2 invmethod])"
        "\<forall>c \<in> set lcalls. \<exists>e. c = (if mixed then Mixed_norm e
                                           else Inv_function e SNR invmethod op)"
        "\<not> isl res \<longrightarrow> length lcalls = length acts"
    unfolding lin_def op_def calls0_def SNR_def acts_def mixed_def by blast
  then have "(Make_inverse_operator \<in> set calls \<longrightarrow> lin) \<and>
         (lin \<and> (calls \<noteq> [] \<or> \<not> isl res) \<longrightarrow> hd calls = Make_inverse_operator) \<and>
         (mixed \<longrightarrow> (\<forall>c \<in> set calls. is_estimate c \<longrightarrow> (\<exists>e. c = Mixed_norm e))) \<and>
         (lin \<longrightarrow> (\<forall>c \<in> set calls. is_estimate c \<longrightarrow>
               (\<exists>e. c = Inv_function e SNR invmethod (Some Minimum_norm_operator)))) \<and>
         (\<not> lin \<and> \<not> mixed \<longrightarrow> (\<forall>c \<in> set calls. is_estimate c \<longrightarrow>
               (\<exists>e. c = Inv_function e SNR invmethod None))) \<and>
         (\<not> isl res \<longrightarrow> length (filter is_estimate calls) = length acts)"
  proof cases
    case early
    then show ?thesis by simp
  next
    case late
    have est: "\<forall>c \<in> set lcalls. is_estimate c"
    proof
      fix c assume "c \<in> set lcalls"
      with late(3) obtain e where "c = (if mixed then Mixed_norm e else Inv_function e SNR invmethod op)"
        by blast
      then show "is_estimate c" by (cases mixed) simp_all
    qed
    have notmake: "\<forall>c \<in> set lcalls. c \<noteq> Make_inverse_operator"
      using est by auto
    have tail: "\<forall>c \<in> set tail. \<not> is_estimate c \<and> c \<noteq> Make_inverse_operator"
      using late(2) by auto
    have c0e: "filter is_estimate calls0 = []" unfolding calls0_def by simp
    have filt: "filter is_estimate calls = lcalls"
    proof -
      have "filter is_estimate lcalls = lcalls" using est by (simp add: filter_True)
      moreover have "filter is_estimate tail = []" using tail by (simp add: filter_empty_conv)
      ultimately show ?thesis unfolding late(1) filter_append c0e by simp
    qed
    have set_est: "c \<in> set lcalls" if "c \<in> set calls" "is_estimate c" for c
    proof -
      from that have "c \<in> set (filter is_estimate calls)" by simp
      then show ?thesis unfolding filt .
    qed
    have form: "\<exists>e. c = (if mixed then Mixed_norm e else Inv_function e SNR invmethod op)"
      if "c \<in> set calls" "is_estimate c" for c
      using set_est[OF that] late(3) by blast
    have 1: "Make_inverse_operator \<in> set calls \<longrightarrow> lin"
    proof
      assume "Make_inverse_operator \<in> set calls"
      then have "Make_inverse_operator \<in> set calls0"
        unfolding late(1) using notmake tail by auto
      then show lin unfolding calls0_def by (cases lin) simp_all
    qed
    have 2: "lin \<and> (calls \<noteq> [] \<or> \<not> isl res) \<longrightarrow> hd calls = Make_inverse_operator"
      unfolding late(1) calls0_def by simp
    have 3: "mixed \<longrightarrow> (\<forall>c \<in> set calls. is_estimate c \<longrightarrow> (\<exists>e. c = Mixed_norm e))"
      using form by auto
    have 4: "lin \<longrightarrow> (\<forall>c \<in> set calls. is_estimate c \<longrightarrow>
               (\<exists>e. c = Inv_function e SNR invmethod (Some Minimum_norm_operator)))"
      using form lm unfolding op_def by auto
    have 5: "\<not> lin \<and> \<not> mixed \<longrightarrow> (\<forall>c \<in> set calls. is_estimate c \<longrightarrow>
               (\<exists>e. c = Inv_function e SNR invmethod None))"
      using form unfolding op_def by auto
    have 6: "\<not> isl res \<longrightarrow> length (filter is_estimate calls) = length acts"
      unfolding filt using late(4) .
    from 1 2 3 4 5 6 show ?thesis by blast
  qed
  then show ?thesis
    unfolding lin_def SNR_def acts_def mixed_def by blast
qed

theorem get_R_dispatch_witness:
  "hd (snd (get_R ex_fwd ex_evoked ex_est [1] [ex_label] ''MNE'' (Fin 2) None False))
     = Make_inverse_operator \<and>
   Make_inverse_operator \<notin> set (snd (get_R ex_fwd ex_evoked ex_est [1] [ex_label] ''mine'' (Fin 2) None False)) \<and>
   length (filter is_estimate
     (snd (get_R ex_fwd ex_evoked ex_est [1] [ex_label] ''mixed_norm'' (Fin 2) None False))) = 1 \<and>
   (\<exists>e. hd (snd (get_R ex_fwd ex_evoked ex_est [1] [ex_label] ''mixed_norm'' (Fin 2) None False))
          = Mixed_norm e) \<and>
   (\<exists>e. hd (snd (get_R ex_fwd ex_evoked ex_est [1] [ex_label] ''mine'' (Fin 2) None False))
          = Inv_function e (Fin 2) ''mine'' None)"
proof -
  note a = get_R_dispatch[OF ex_run_MNE]
  note b = get_R_dispatch[OF ex_run_inv]
  note c = get_R_dispatch[OF ex_run_mixed]
  from a have 1: "hd (snd (get_R ex_fwd ex_evoked ex_est [1] [ex_label] ''MNE'' (Fin 2) None False))
     = Make_inverse_operator"
    unfolding ex_run_MNE by simp
  from b have 2: "Make_inverse_operator \<notin> set (snd (get_R ex_fwd ex_evoked ex_est [1] [ex_label] ''mine'' (Fin 2) None False))"
    unfolding ex_run_inv by simp
  from c have 3: "length (filter is_estimate
     (snd (get_R ex_fwd ex_evoked ex_est [1] [ex_label] ''mixed_norm'' (Fin 2) None False))) = 1"
    unfolding ex_run_mixed by simp
  from c have 4: "\<exists>e. hd (snd (get_R ex_fwd ex_evoked ex_est [1] [ex_label] ''mixed_norm'' (Fin 2) None False))
          = Mixed_norm e"
    unfolding ex_run_mixed by simp
  from b have 5: "\<exists>e. hd (snd (get_R ex_fwd ex_evoked ex_est [1] [ex_label] ''mine'' (Fin 2) None False))
          = Inv_function e (Fin 2) ''mine'' None"
    unfolding ex_run_inv by simp
  from 1 2 3 4 5 show ?thesis by blast
qed

subsection \<open>Sensor data simulated by get_R\<close>

lemma ave_scale_Inr:
  "ave_scale fwd lv T acts mod_ind nps SNR = Inr s \<longleftrightarrow>
     (\<exists>sps. emap (sign_pow fwd lv T acts) mod_ind = Inr sps \<and>
            s = xdiv SNR (np_mean (map2 xdiv sps nps)))"
  by (auto simp: ave_scale_def ebind_Inr Let_def)

lemma get_R_Inr:
  fixes fwd ev est waveform labels invmethod SNR0 acts0 ca
  defines "acts \<equiv> (case acts0 of None \<Rightarrow> labels | Some a \<Rightarrow> a)"
      and "noise0 \<equiv> map (take (length waveform)) (ave_data ev)"
      and "mod_ind \<equiv> [picks_mag ev, picks_grad ev, picks_eeg ev]"
      and "SNR \<equiv> (if ca then PInf else SNR0)"
      and "op \<equiv> (if invmethod \<in> set [''MNE'', ''dSPM'', ''eLORETA'', ''sLORETA'']
                   then Some Minimum_norm_operator else None)"
      and "calls0 \<equiv> (if invmethod \<in> set [''MNE'', ''dSPM'', ''eLORETA'', ''sLORETA'']
                       then [Make_inverse_operator] else [])"
  assumes run: "get_R fwd ev est waveform labels invmethod SNR0 acts0 ca = (Inr out, calls)"
  shows "\<exists>nps noise s acc lcalls.
            emap (noise_power noise0) mod_ind = Inr nps \<and>
            index_goodies noise0 (goodies_of ev) = Inr noise \<and>
            ave_scale fwd (make_label_verts fwd labels) (length waveform) acts mod_ind nps SNR = Inr s \<and>
            get_R_loop (run_ctx fwd ev est waveform labels invmethod SNR0 ca noise s) acts ([], [], None)
              = (Inr acc, lcalls) \<and>
            (ca \<longrightarrow> (\<exists>l2. snd (snd acc) = Some l2 \<and>
                       calls = calls0 @ lcalls @ [Prepare_inverse_operator op l2 invmethod])) \<and>
            (\<not> ca \<longrightarrow> calls = calls0 @ lcalls \<and>
                       out = Empirical (map (map xabs) (fst acc)) (fst (snd acc)))"
proof -
  note cases = get_R_cases[OF run, folded acts_def noise0_def mod_ind_def SNR_def op_def calls0_def]
  from cases show ?thesis
  proof (elim disjE exE conjE)
    fix e assume "Inr out = Inl e"
    then show ?thesis by simp
  next
    fix nps noise e assume "Inr out = Inl e"
    then show ?thesis by simp
  next
    fix nps noise s lres lcalls
    assume nps: "emap (noise_power noise0) mod_ind = Inr nps"
    and noise: "index_goodies noise0 (goodies_of ev) = Inr noise"
    and s: "ave_scale fwd (make_label_verts fwd labels) (length waveform) acts mod_ind nps SNR = Inr s"
    and l: "get_R_loop (run_ctx fwd ev est waveform labels invmethod SNR0 ca noise s) acts ([], [], None)
              = (lres, lcalls)"
    and c: "case lres of
                   Inl e \<Rightarrow> Inr out = Inl e \<and> calls = calls0 @ lcalls
                 | Inr acc \<Rightarrow>
                     (if ca then
                        (case snd (snd acc) of
                           None \<Rightarrow> Inr out = Inl NameError \<and> calls = calls0 @ lcalls
                         | Some l2 \<Rightarrow>
                             \<not> isl (Inr out :: error + get_R_output) \<and>
                             calls = calls0 @ lcalls @ [Prepare_inverse_operator op l2 invmethod])
                      else Inr out = Inr (Empirical (map (map xabs) (fst acc)) (fst (snd acc))) \<and>
                           calls = calls0 @ lcalls)"
    from c obtain acc where acc: "lres = Inr acc" by (cases lres) auto
    have a: "ca \<longrightarrow> (\<exists>l2. snd (snd acc) = Some l2 \<and>
                       calls = calls0 @ lcalls @ [Prepare_inverse_operator op l2 invmethod])"
    using c unfolding acc by (cases "snd (snd acc)") auto
    have b: "\<not> ca \<longrightarrow> calls = calls0 @ lcalls \<and>
                       out = Empirical (map (map xabs) (fst acc)) (fst (snd acc))"
      using c unfolding acc by auto
    from nps noise s l[unfolded acc] a b show ?thesis by blast
  qed
qed

text \<open>
  Claim C5, as amended. In every run of \<^verbatim>\<open>get_R\<close> that returns there is one scaling
  factor \<open>ave_scale = SNR / mean\<close>, the mean taken over the three channel modalities
  (mag, grad, eeg) of the ratio of the average forward-projected signal power to the
  noise power, with \<open>SNR\<close> set to infinity when \<^verbatim>\<open>compute_analytical\<close> is True. For
  every activation label the data handed to the estimator are \<open>ave_scale * signal + noise\<close>
  on the good channels when \<open>ave_scale\<close> is not \<open>+inf\<close>, and the noise-free signal
  when it is \<open>+inf\<close>. When \<^verbatim>\<open>compute_analytical\<close> is True the scaling factor of a
  returning run is \<open>+inf\<close>, so the data are the noise-free signal, and the inverse operator
  is prepared with \<open>lambda2 = 1/9\<close>.
\<close>

theorem get_R_sensor_data:
  fixes fwd ev est waveform labels invmethod SNR0 acts0 ca
  defines "acts \<equiv> (case acts0 of None \<Rightarrow> labels | Some a \<Rightarrow> a)"
      and "noise0 \<equiv> map (take (length waveform)) (ave_data ev)"
      and "mod_ind \<equiv> [picks_mag ev, picks_grad ev, picks_eeg ev]"
      and "SNR \<equiv> (if ca then PInf else SNR0)"
      and "n_made \<equiv> (if invmethod \<in> set [''MNE'', ''dSPM'', ''eLORETA'', ''sLORETA''] then 1 else 0)"
  assumes run: "get_R fwd ev est waveform labels invmethod SNR0 acts0 ca = (Inr out, calls)"
  shows "\<exists>nps sps noise s.
           emap (noise_power noise0) mod_ind = Inr nps \<and>
           emap (sign_pow fwd (make_label_verts fwd labels) (length waveform) acts) mod_ind = Inr sps \<and>
           index_goodies noise0 (goodies_of ev) = Inr noise \<and>
           s = xdiv SNR (np_mean (map2 xdiv sps nps)) \<and>
           (\<forall>i < length acts. \<exists>signal sens.
              patch_signal fwd (make_label_verts fwd labels) waveform (goodies_of ev) (acts ! i) = Inr signal \<and>
              (if s = PInf then sens = map (map Fin) signal
               else scaled_signal_plus_noise s signal noise = Inr sens) \<and>
              evoked_of (calls ! (n_made + i)) = evoked_mod (length (ch_names ev)) (goodies_of ev) sens) \<and>
           (ca \<longrightarrow> SNR = PInf \<and> s = PInf \<and>
              (\<exists>i. last calls = Prepare_inverse_operator i (1 / 9) invmethod))"
proof -
  define lin where "lin \<longleftrightarrow> invmethod \<in> set [''MNE'', ''dSPM'', ''eLORETA'', ''sLORETA'']"
  define op where "op = (if lin then Some Minimum_norm_operator else None)"
  define calls0 where "calls0 = (if lin then [Make_inverse_operator] else [])"
  have n_made: "n_made = length calls0" unfolding n_made_def calls0_def lin_def by simp
  let ?lv = "make_label_verts fwd labels"
  from get_R_Inr[OF run, folded acts_def noise0_def mod_ind_def SNR_def, folded lin_def, folded op_def calls0_def]
  obtain nps noise s acc lcalls where
    nps: "emap (noise_power noise0) mod_ind = Inr nps"
    and noise: "index_goodies noise0 (goodies_of ev) = Inr noise"
    and s: "ave_scale fwd ?lv (length waveform) acts mod_ind nps SNR = Inr s"
    and l: "get_R_loop (run_ctx fwd ev est waveform labels invmethod SNR0 ca noise s) acts ([], [], None)
              = (Inr acc, lcalls)"
    and ca1: "ca \<longrightarrow> (\<exists>l2. snd (snd acc) = Some l2 \<and>
                       calls = calls0 @ lcalls @ [Prepare_inverse_operator op l2 invmethod])"
    and ca0: "\<not> ca \<longrightarrow> calls = calls0 @ lcalls \<and>
                       out = Empirical (map (map xabs) (fst acc)) (fst (snd acc))"
    by blast
  let ?ctx = "run_ctx fwd ev est waveform labels invmethod SNR0 ca noise s"
  note loop = get_R_loop_Inr[OF l]
  have len: "length lcalls = length acts" using loop by simp
  have lam: "snd (snd acc) = (if acts \<noteq> [] \<and> s = PInf then Some (1 / 9) else None)"
    using loop by (simp add: run_ctx_def)
  have each: "\<forall>i < length acts. \<exists>sens. sens_for ?ctx (acts ! i) sens \<and>
            lcalls ! i = estimator_call ?ctx (evoked_mod (length (ch_names ev)) (goodies_of ev) sens)"
    using loop by (simp add: run_ctx_def)
  from s obtain sps where
    sps: "emap (sign_pow fwd ?lv (length waveform) acts) mod_ind = Inr sps"
    and sv: "s = xdiv SNR (np_mean (map2 xdiv sps nps))"
    unfolding ave_scale_Inr by blast
  have pre: "\<exists>tail. calls = calls0 @ lcalls @ tail"
    using ca1 ca0 by (cases ca) auto
  have pts: "\<forall>i < length acts. \<exists>signal sens.
              patch_signal fwd ?lv waveform (goodies_of ev) (acts ! i) = Inr signal \<and>
              (if s = PInf then sens = map (map Fin) signal
               else scaled_signal_plus_noise s signal noise = Inr sens) \<and>
              evoked_of (calls ! (n_made + i)) = evoked_mod (length (ch_names ev)) (goodies_of ev) sens"
  proof (intro allI impI)
    fix i assume i: "i < length acts"
    with each obtain sens where sf: "sens_for ?ctx (acts ! i) sens"
      and ci: "lcalls ! i = estimator_call ?ctx (evoked_mod (length (ch_names ev)) (goodies_of ev) sens)"
      by blast
    from sf obtain signal where
      sg: "patch_signal fwd ?lv waveform (goodies_of ev) (acts ! i) = Inr signal"
      and sn: "if s = PInf then sens = map (map Fin) signal
               else scaled_signal_plus_noise s signal noise = Inr sens"
      unfolding sens_for_def by (auto simp: run_ctx_def cong: if_cong)
    from pre obtain tail where "calls = calls0 @ lcalls @ tail" by blast
    then have "calls ! (n_made + i) = lcalls ! i"
      using i len by (simp add: n_made nth_append)
    then have "evoked_of (calls ! (n_made + i)) = evoked_mod (length (ch_names ev)) (goodies_of ev) sens"
      unfolding ci by (simp add: estimator_call_def)
    with sg sn show "\<exists>signal sens.
              patch_signal fwd ?lv waveform (goodies_of ev) (acts ! i) = Inr signal \<and>
              (if s = PInf then sens = map (map Fin) signal
               else scaled_signal_plus_noise s signal noise = Inr sens) \<and>
              evoked_of (calls ! (n_made + i)) = evoked_mod (length (ch_names ev)) (goodies_of ev) sens"
      by blast
  qed
  have ana: "ca \<longrightarrow> SNR = PInf \<and> s = PInf \<and>
              (\<exists>i. last calls = Prepare_inverse_operator i (1 / 9) invmethod)"
  proof
    assume ca: ca
    with ca1 obtain l2 where l2: "snd (snd acc) = Some l2"
      and cs: "calls = calls0 @ lcalls @ [Prepare_inverse_operator op l2 invmethod]"
      by blast
    from l2 lam have "s = PInf" "l2 = 1 / 9" by (auto split: if_splits)
    moreover have "SNR = PInf" using ca by (simp add: SNR_def)
    moreover have "last calls = Prepare_inverse_operator op l2 invmethod" unfolding cs by simp
    ultimately show "SNR = PInf \<and> s = PInf \<and>
              (\<exists>i. last calls = Prepare_inverse_operator i (1 / 9) invmethod)"
      by blast
  qed
  from nps sps noise sv pts ana show ?thesis by blast
qed

lemma ex_noise_power:
  "emap (noise_power (map (take (length [1::real])) (ave_data ex_evoked)))
        [picks_mag ex_evoked, picks_grad ex_evoked, picks_eeg ex_evoked] = Inr [Fin 1, Fin 1, Fin 1]"
  by (simp add: get_R_simps)

lemma ex_sign_pow:
  "emap (sign_pow ex_fwd (make_label_verts ex_fwd [ex_label]) (length [1::real]) [ex_label])
        [picks_mag ex_evoked, picks_grad ex_evoked, picks_eeg ex_evoked] = Inr [Fin 1, Fin 1, Fin 1]"
  by (simp add: get_R_simps)

lemma ex_noise:
  "index_goodies (map (take (length [1::real])) (ave_data ex_evoked)) (goodies_of ex_evoked)
     = Inr [[1], [1], [1]]"
  by (simp add: get_R_simps)

lemma ex_patch_signal:
  "patch_signal ex_fwd (make_label_verts ex_fwd [ex_label]) [1] (goodies_of ex_evoked) ex_label
     = Inr [[1], [1], [1]]"
  by (simp add: get_R_simps)

lemma ex_ave_scale:
  "xdiv SNR (np_mean (map2 xdiv [Fin 1, Fin 1, Fin 1] [Fin 1, Fin 1, Fin 1])) = SNR"
  apply (cases SNR)
  apply (simp_all add: get_R_simps)
  done

lemma ex_scaled:
  "scaled_signal_plus_noise (Fin 2) [[1], [1], [1]] [[1], [1], [1]] = Inr [[Fin 3], [Fin 3], [Fin 3]]"
  by (simp add: scaled_signal_plus_noise_def get_R_simps)

lemma ex_scaled_inf:
  "scaled_signal_plus_noise PInf [[1], [1], [1]] [[1], [1], [1]] = Inr [[PInf], [PInf], [PInf]]"
  by (simp add: scaled_signal_plus_noise_def get_R_simps)

lemma ex_evoked_mod:
  "evoked_mod (length (ch_names ex_evoked)) (goodies_of ex_evoked) [[a], [b], [c]] = [[a], [b], [c]]"
  by (simp add: get_R_simps)

theorem get_R_sensor_data_witness:
  "(\<exists>signal sens.
      patch_signal ex_fwd (make_label_verts ex_fwd [ex_label]) [1] (goodies_of ex_evoked) ex_label = Inr signal \<and>
      scaled_signal_plus_noise (Fin 2) signal [[1], [1], [1]] = Inr sens \<and>
      evoked_mod (length (ch_names ex_evoked)) (goodies_of ex_evoked) sens = [[Fin 3], [Fin 3], [Fin 3]]) \<and>
   (\<exists>i. last (snd (get_R ex_fwd ex_evoked ex_est [1] [ex_label] ''MNE'' (Fin 2) None True))
          = Prepare_inverse_operator i (1 / 9) ''MNE'')"
proof -
  note a = get_R_sensor_data[OF ex_run_inv, unfolded option.case if_False ex_noise_power ex_sign_pow ex_noise]
  note b = get_R_sensor_data[OF ex_run_analytical]
  from a obtain nps sps noise s where
    nps: "Inr [Fin 1, Fin 1, Fin 1] = (Inr nps :: error + xfloat list)"
    and sps: "Inr [Fin 1, Fin 1, Fin 1] = (Inr sps :: error + xfloat list)"
    and noise: "Inr [[1], [1], [1]] = (Inr noise :: error + real list list)"
    and s: "s = xdiv (Fin 2) (np_mean (map2 xdiv sps nps))"
    and pts: "\<forall>i < length [ex_label]. \<exists>signal sens.
              patch_signal ex_fwd (make_label_verts ex_fwd [ex_label]) [1] (goodies_of ex_evoked) ([ex_label] ! i) = Inr signal \<and>
              (if s = PInf then sens = map (map Fin) signal
               else scaled_signal_plus_noise s signal noise = Inr sens) \<and>
              evoked_of ([Inv_function [[Fin 3], [Fin 3], [Fin 3]] (Fin 2) ''mine'' None] !
                  ((if ''mine'' \<in> set [''MNE'', ''dSPM'', ''eLORETA'', ''sLORETA''] then 1 else 0) + i))
                = evoked_mod (length (ch_names ex_evoked)) (goodies_of ex_evoked) sens"
    by blast
  from nps sps noise have v: "nps = [Fin 1, Fin 1, Fin 1]" "sps = [Fin 1, Fin 1, Fin 1]" "noise = [[1], [1], [1]]"
    by simp_all
  have s2: "s = Fin 2" unfolding s v by (rule ex_ave_scale)
  from pts have "\<exists>signal sens.
              patch_signal ex_fwd (make_label_verts ex_fwd [ex_label]) [1] (goodies_of ex_evoked) ([ex_label] ! 0) = Inr signal \<and>
              (if s = PInf then sens = map (map Fin) signal
               else scaled_signal_plus_noise s signal noise = Inr sens) \<and>
              evoked_of ([Inv_function [[Fin 3], [Fin 3], [Fin 3]] (Fin 2) ''mine'' None] !
                  ((if ''mine'' \<in> set [''MNE'', ''dSPM'', ''eLORETA'', ''sLORETA''] then 1 else 0) + 0))
                = evoked_mod (length (ch_names ex_evoked)) (goodies_of ex_evoked) sens"
    by simp
  then have 1: "\<exists>signal sens.
      patch_signal ex_fwd (make_label_verts ex_fwd [ex_label]) [1] (goodies_of ex_evoked) ex_label = Inr signal \<and>
      scaled_signal_plus_noise (Fin 2) signal [[1], [1], [1]] = Inr sens \<and>
      evoked_mod (length (ch_names ex_evoked)) (goodies_of ex_evoked) sens = [[Fin 3], [Fin 3], [Fin 3]]"
    unfolding s2 v by auto
  from b have 2: "\<exists>i. last (snd (get_R ex_fwd ex_evoked ex_est [1] [ex_label] ''MNE'' (Fin 2) None True))
          = Prepare_inverse_operator i (1 / 9) ''MNE''"
    unfolding ex_run_analytical by simp
  from 1 2 show ?thesis by blast
qed

text \<open>
  With \<^verbatim>\<open>compute_analytical\<close> False and \<open>SNR = +inf\<close> the scaling factor is \<open>+inf\<close> and
  the estimator receives the noise-free signal, which is not \<open>scaling * signal + noise\<close>.
\<close>

theorem get_R_claim_counterexample:
  "get_R ex_fwd ex_evoked ex_est [1] [ex_label] ''mine'' PInf None False =
     (Inr (Empirical [[Fin 1]] [[Fin 1]]),
      [Inv_function [[Fin 1], [Fin 1], [Fin 1]] PInf ''mine'' None]) \<and>
   patch_signal ex_fwd (make_label_verts ex_fwd [ex_label]) [1] (goodies_of ex_evoked) ex_label
     = Inr [[1], [1], [1]] \<and>
   index_goodies (map (take (length [1::real])) (ave_data ex_evoked)) (goodies_of ex_evoked)
     = Inr [[1], [1], [1]] \<and>
   ave_scale ex_fwd (make_label_verts ex_fwd [ex_label]) (length [1::real]) [ex_label]
      [picks_mag ex_evoked, picks_grad ex_evoked, picks_eeg ex_evoked] [Fin 1, Fin 1, Fin 1] PInf = Inr PInf \<and>
   scaled_signal_plus_noise PInf [[1], [1], [1]] [[1], [1], [1]] = Inr [[PInf], [PInf], [PInf]] \<and>
   evoked_mod (length (ch_names ex_evoked)) (goodies_of ex_evoked) [[PInf], [PInf], [PInf]]
     \<noteq> [[Fin 1], [Fin 1], [Fin 1]]"
proof -
  have "ave_scale ex_fwd (make_label_verts ex_fwd [ex_label]) (length [1::real]) [ex_label]
      [picks_mag ex_evoked, picks_grad ex_evoked, picks_eeg ex_evoked] [Fin 1, Fin 1, Fin 1] PInf = Inr PInf"
    unfolding ave_scale_Inr ex_sign_pow using ex_ave_scale[of PInf] by simp
  moreover have "evoked_mod (length (ch_names ex_evoked)) (goodies_of ex_evoked) [[PInf], [PInf], [PInf]]
     \<noteq> [[Fin 1], [Fin 1], [Fin 1]]"
    unfolding ex_evoked_mod by simp
  ultimately show ?thesis
    using ex_run_inf ex_patch_signal ex_noise ex_scaled_inf by blast
qed

subsection \<open>get_r_master on three SNR values, and on two activation labels\<close>

lemma ex_get_R_snr:
  "fst (get_R ex_fwd ex_evoked ex_est_snr [1] [ex_label] ''mine'' (Fin s) (Some [ex_label]) False)
     = Inr (Empirical [[Fin \<bar>s\<bar>]] [[Fin \<bar>s\<bar>]])"
  by (simp add: get_R_simps ex_est_snr_def)

lemma ex_get_R_echo_a:
  "fst (get_R ex_fwd2 ex_evoked ex_est_echo [1] [ex_label, ex_label2] ''mine'' (Fin 3) (Some [ex_label]) False)
     = Inr (Empirical [[Fin 4, Fin 4]] [[Fin 4, Fin 4]])"
  by (simp add: get_R_simps ex_est_echo_def ex_fwd2_def ex_label2_def)

lemma ex_get_R_echo_b:
  "fst (get_R ex_fwd2 ex_evoked ex_est_echo [1] [ex_label, ex_label2] ''mine'' (Fin 3) (Some [ex_label2]) False)
     = Inr (Empirical [[Fin 4, Fin 4]] [[Fin 4, Fin 4]])"
  by (simp add: get_R_simps ex_est_echo_def ex_fwd2_def ex_label2_def)

lemma ex_get_R_echo_ab:
  "fst (get_R ex_fwd2 ex_evoked ex_est_echo [1] [ex_label, ex_label2] ''mine'' (Fin 3) (Some [ex_label, ex_label2]) False)
     = Inr (Empirical [[Fin 3, Fin 3], [Fin 5, Fin 5]] [[Fin 3, Fin 3], [Fin 5, Fin 5]])"
  by (simp add: get_R_simps ex_est_echo_def ex_fwd2_def ex_label2_def)

lemmas get_r_master_simps =
  get_r_master_def make_SNR_iterations_def np_floor_divide_def np_mod_def py_slice_def
  method_tensors_def run_group_def array_split_def make_inp_group_def gather_chunks_def
  set_slice_def nth_checked_def concatenate_axis1_def ebind_def Let_def dict_get_def
  r_master_sequential_def

lemma ex_fwd_vertno: "vertno_lh ex_fwd = [0]" "vertno_rh ex_fwd = []"
  by (simp_all add: ex_fwd_def)

lemma ex_fwd2_vertno: "vertno_lh ex_fwd2 = [0, 1]" "vertno_rh ex_fwd2 = []"
  by (simp_all add: ex_fwd2_def)

lemma ex_groups_2: "make_SNR_iterations [Fin 1, Fin 2, Fin 3] 2 = [[Fin 1, Fin 2], [Fin 3]]"
  by (simp add: make_SNR_iterations_def np_floor_divide_def np_mod_def py_slice_def Let_def)

lemma ex_master_2:
  "ebind (get_r_master [Fin 1, Fin 2, Fin 3] [1] ex_fwd [ex_label] [''mine''] ex_evoked None ex_est_snr 2)
     (\<lambda>m. dict_get (fst m) ''mine'') = Inr (Tensor [[[Fin 1]], [[Fin 3]], [[Fin 0]]])"
  by (simp add: get_r_master_simps ex_get_R_snr ex_fwd_vertno eval_nat_numeral)

lemma ex_master_1:
  "ebind (get_r_master [Fin 1, Fin 2, Fin 3] [1] ex_fwd [ex_label] [''mine''] ex_evoked None ex_est_snr 1)
     (\<lambda>m. dict_get (fst m) ''mine'') = Inr (Tensor [[[Fin 1]], [[Fin 2]], [[Fin 3]]])"
  by (simp add: get_r_master_simps ex_get_R_snr ex_fwd_vertno eval_nat_numeral)

lemma ex_master_seq:
  "ebind (r_master_sequential [Fin 1, Fin 2, Fin 3] [1] ex_fwd [ex_label] [''mine''] ex_evoked None ex_est_snr)
     (\<lambda>m. dict_get (fst m) ''mine'') = Inr (Tensor [[[Fin 1]], [[Fin 2]], [[Fin 3]]])"
  by (simp add: get_r_master_simps ex_get_R_snr ex_fwd_vertno eval_nat_numeral)

lemma ex_master_echo_2:
  "ebind (get_r_master [Fin 3] [1] ex_fwd2 [ex_label, ex_label2] [''mine''] ex_evoked None ex_est_echo 2)
     (\<lambda>m. dict_get (fst m) ''mine'') = Inr (Tensor [[[Fin 4, Fin 4], [Fin 4, Fin 4]]])"
  by (simp add: get_r_master_simps ex_get_R_echo_a ex_get_R_echo_b ex_fwd2_vertno eval_nat_numeral)

lemma ex_master_echo_1:
  "ebind (get_r_master [Fin 3] [1] ex_fwd2 [ex_label, ex_label2] [''mine''] ex_evoked None ex_est_echo 1)
     (\<lambda>m. dict_get (fst m) ''mine'') = Inr (Tensor [[[Fin 3, Fin 3], [Fin 5, Fin 5]]])"
  by (simp add: get_r_master_simps ex_get_R_echo_ab ex_fwd2_vertno eval_nat_numeral)

text \<open>
  Claim C1 says that the slice \<open>s\<close> of every tensor \<^verbatim>\<open>get_r_master\<close> returns is the
  matrix \<^verbatim>\<open>get_R\<close> computes at \<open>SNRs[s]\<close>. With three SNR values and \<open>n_jobs = 2\<close> the
  groups are \<open>[SNRs[0], SNRs[1]]\<close> and \<open>[SNRs[2]]\<close>, and the write index
  \<open>c + group_count * len(SNR_group)\<close> of the second group is \<open>0 + 1 * 1 = 1\<close>: in both
  tensors the slice 1 holds the matrix of \<open>SNRs[2]\<close> and the slice 2 is left at zero.
\<close>

theorem get_r_master_stale_slice:
  "ebind (get_r_master [Fin 1, Fin 2, Fin 3] [1] ex_fwd [ex_label] [''mine''] ex_evoked None ex_est_snr 2)
     (\<lambda>m. dict_get (fst m) ''mine'') = Inr (Tensor [[[Fin 1]], [[Fin 3]], [[Fin 0]]]) \<and>
   ebind (get_r_master [Fin 1, Fin 2, Fin 3] [1] ex_fwd [ex_label] [''mine''] ex_evoked None ex_est_snr 2)
     (\<lambda>m. dict_get (snd m) ''mine'') = Inr (Tensor [[[Fin 1]], [[Fin 3]], [[Fin 0]]]) \<and>
   fst (get_R ex_fwd ex_evoked ex_est_snr [1] [ex_label] ''mine'' (Fin 2) (Some [ex_label]) False)
     = Inr (Empirical [[Fin 2]] [[Fin 2]]) \<and>
   fst (get_R ex_fwd ex_evoked ex_est_snr [1] [ex_label] ''mine'' (Fin 3) (Some [ex_label]) False)
     = Inr (Empirical [[Fin 3]] [[Fin 3]])"
proof -
  have 1: "ebind (get_r_master [Fin 1, Fin 2, Fin 3] [1] ex_fwd [ex_label] [''mine''] ex_evoked None ex_est_snr 2)
     (\<lambda>m. dict_get (fst m) ''mine'') = Inr (Tensor [[[Fin 1]], [[Fin 3]], [[Fin 0]]])"
    by (rule ex_master_2)
  have 2: "ebind (get_r_master [Fin 1, Fin 2, Fin 3] [1] ex_fwd [ex_label] [''mine''] ex_evoked None ex_est_snr 2)
     (\<lambda>m. dict_get (snd m) ''mine'') = Inr (Tensor [[[Fin 1]], [[Fin 3]], [[Fin 0]]])"
    by (simp add: get_r_master_simps ex_get_R_snr ex_fwd_vertno eval_nat_numeral)
  have 3: "fst (get_R ex_fwd ex_evoked ex_est_snr [1] [ex_label] ''mine'' (Fin 2) (Some [ex_label]) False)
     = Inr (Empirical [[Fin 2]] [[Fin 2]])"
    using ex_get_R_snr[of 2] by simp
  have 4: "fst (get_R ex_fwd ex_evoked ex_est_snr [1] [ex_label] ''mine'' (Fin 3) (Some [ex_label]) False)
     = Inr (Empirical [[Fin 3]] [[Fin 3]])"
    using ex_get_R_snr[of 3] by simp
  from 1 2 3 4 show ?thesis by blast
qed

text \<open>
  Claim C4 says that the result of \<^verbatim>\<open>get_r_master\<close> is the one of evaluating \<^verbatim>\<open>get_R\<close>
  for every SNR value in turn with the whole list of activation labels, whatever
  \<open>n_jobs\<close>. With three SNR values it is so with \<open>n_jobs = 1\<close> and not with
  \<open>n_jobs = 2\<close>, which does not divide 3. With one SNR value, two activation labels of
  different signal power and \<open>n_jobs = 2\<close>, \<^verbatim>\<open>get_R\<close> is called on each label alone and
  scales it by the power of that label and not by the mean of the two: the result differs
  again.
\<close>

theorem get_r_master_depends_on_n_jobs:
  "ebind (get_r_master [Fin 1, Fin 2, Fin 3] [1] ex_fwd [ex_label] [''mine''] ex_evoked None ex_est_snr 2)
     (\<lambda>m. dict_get (fst m) ''mine'')
   \<noteq> ebind (r_master_sequential [Fin 1, Fin 2, Fin 3] [1] ex_fwd [ex_label] [''mine''] ex_evoked None ex_est_snr)
     (\<lambda>m. dict_get (fst m) ''mine'') \<and>
   ebind (get_r_master [Fin 1, Fin 2, Fin 3] [1] ex_fwd [ex_label] [''mine''] ex_evoked None ex_est_snr 1)
     (\<lambda>m. dict_get (fst m) ''mine'')
   = ebind (r_master_sequential [Fin 1, Fin 2, Fin 3] [1] ex_fwd [ex_label] [''mine''] ex_evoked None ex_est_snr)
     (\<lambda>m. dict_get (fst m) ''mine'') \<and>
   ebind (get_r_master [Fin 3] [1] ex_fwd2 [ex_label, ex_label2] [''mine''] ex_evoked None ex_est_echo 2)
     (\<lambda>m. dict_get (fst m) ''mine'') = Inr (Tensor [[[Fin 4, Fin 4], [Fin 4, Fin 4]]]) \<and>
   ebind (r_master_sequential [Fin 3] [1] ex_fwd2 [ex_label, ex_label2] [''mine''] ex_evoked None ex_est_echo)
     (\<lambda>m. dict_get (fst m) ''mine'') = Inr (Tensor [[[Fin 3, Fin 3], [Fin 5, Fin 5]]])"
proof -
  have 1: "ebind (get_r_master [Fin 1, Fin 2, Fin 3] [1] ex_fwd [ex_label] [''mine''] ex_evoked None ex_est_snr 2)
     (\<lambda>m. dict_get (fst m) ''mine'')
   \<noteq> ebind (r_master_sequential [Fin 1, Fin 2, Fin 3] [1] ex_fwd [ex_label] [''mine''] ex_evoked None ex_est_snr)
     (\<lambda>m. dict_get (fst m) ''mine'')"
    unfolding ex_master_2 ex_master_seq by simp
  have 2: "ebind (get_r_master [Fin 1, Fin 2, Fin 3] [1] ex_fwd [ex_label] [''mine''] ex_evoked None ex_est_snr 1)
     (\<lambda>m. dict_get (fst m) ''mine'')
   = ebind (r_master_sequential [Fin 1, Fin 2, Fin 3] [1] ex_fwd [ex_label] [''mine''] ex_evoked None ex_est_snr)
     (\<lambda>m. dict_get (fst m) ''mine'')"
    unfolding ex_master_1 ex_master_seq by simp
  have 4: "ebind (r_master_sequential [Fin 3] [1] ex_fwd2 [ex_label, ex_label2] [''mine''] ex_evoked None ex_est_echo)
     (\<lambda>m. dict_get (fst m) ''mine'') = Inr (Tensor [[[Fin 3, Fin 3], [Fin 5, Fin 5]]])"
    by (simp add: get_r_master_simps ex_get_R_echo_ab ex_fwd2_vertno eval_nat_numeral)
  from 1 2 ex_master_echo_2 4 show ?thesis by blast
qed

end
